theory Spec2Isabelle
  imports Main "HOL-Library.Multiset"
begin

section \<open>Data model\<close>

text \<open>
  A JavaScript string is a sequence of UTF-16 code units; a code unit is modelled as a
  natural number. \<open>str\<close> writes an ASCII literal as such a sequence.
\<close>

type_synonym jsstring = "nat list"

definition str :: "string \<Rightarrow> jsstring" where
  "str s = map of_char s"

text \<open>The enumeration \<open>MnemonicLanguages\<close> (imported from \<open>@celo/base/lib/account\<close>).\<close>

datatype MnemonicLanguages =
    chinese_simplified
  | chinese_traditional
  | english
  | french
  | italian
  | japanese
  | korean
  | spanish
  | portuguese

text \<open>
  The word lists \<open>bip39.wordlists\<close> belong to the external \<open>bip39\<close> package. They are
  a parameter of every function that reads them.
\<close>

type_synonym wordlists = "MnemonicLanguages \<Rightarrow> jsstring list"

definition getWordList :: "wordlists \<Rightarrow> MnemonicLanguages option \<Rightarrow> jsstring list" where
  "getWordList wl language =
     (case (case language of None \<Rightarrow> english | Some l \<Rightarrow> l) of
        chinese_simplified \<Rightarrow> wl chinese_simplified
      | chinese_traditional \<Rightarrow> wl chinese_traditional
      | english \<Rightarrow> wl english
      | french \<Rightarrow> wl french
      | italian \<Rightarrow> wl italian
      | japanese \<Rightarrow> wl japanese
      | korean \<Rightarrow> wl korean
      | spanish \<Rightarrow> wl spanish
      | portuguese \<Rightarrow> wl portuguese)"

definition getAllLanguages :: "MnemonicLanguages list" where
  "getAllLanguages =
     [chinese_simplified, chinese_traditional, english, french, italian,
      japanese, korean, spanish, portuguese]"

section \<open>Language detection\<close>

text \<open>
  \<open>detectLanguage\<close>: the first \<open>reduce\<close> counts, per candidate, the words found in the
  candidate's word set; the second keeps the leaders and the leading score, starting
  from \<open>([], 0)\<close>.
\<close>

definition detectLanguage ::
  "wordlists \<Rightarrow> jsstring list \<Rightarrow> MnemonicLanguages list option \<Rightarrow> MnemonicLanguages option" where
  "detectLanguage wl words candidates =
     (let scores =
            map (\<lambda>candidate.
                   let wordSet = set (getWordList wl (Some candidate));
                       score = foldl (\<lambda>count word. if word \<in> wordSet then count + 1 else count)
                                 (0::nat) words
                   in (candidate, score))
              (case candidates of None \<Rightarrow> getAllLanguages | Some cs \<Rightarrow> cs);
          (winners, highscore) =
            foldl (\<lambda>(leaders, leadingScore) (candidate, score).
                     if score > leadingScore then ([candidate], score)
                     else if score = leadingScore then (leaders @ [candidate], leadingScore)
                     else (leaders, leadingScore))
              ([], 0) scores
      in if length winners \<noteq> 1 \<or> highscore < 1 then None else Some (winners ! 0))"

subsection \<open>The detection rule in the words of the specification\<close>

text \<open>
  The score of a candidate is the number of tokens, duplicates counted, that are in the
  candidate's word list; the maximum is taken over the entries of the candidate list
  (and is 0 for an empty list, scores being natural numbers).
\<close>

definition matchScore :: "wordlists \<Rightarrow> jsstring list \<Rightarrow> MnemonicLanguages \<Rightarrow> nat" where
  "matchScore wl words c = length (filter (\<lambda>w. w \<in> set (getWordList wl (Some c))) words)"

definition maxScore :: "wordlists \<Rightarrow> jsstring list \<Rightarrow> MnemonicLanguages list \<Rightarrow> nat" where
  "maxScore wl words cs = Max (insert 0 (set (map (matchScore wl words) cs)))"

definition detectSpec ::
  "wordlists \<Rightarrow> jsstring list \<Rightarrow> MnemonicLanguages list \<Rightarrow> MnemonicLanguages option" where
  "detectSpec wl words cs =
     (case filter (\<lambda>c. matchScore wl words c = maxScore wl words cs) cs of
        [l] \<Rightarrow> if 1 \<le> maxScore wl words cs then Some l else None
      | _ \<Rightarrow> None)"

section \<open>Validation against the word lists\<close>

text \<open>
  \<open>validateMnemonic\<close>: \<open>bip39ToUse\<close> stands for the \<open>validateMnemonic\<close> member of the
  \<open>Bip39\<close> object the caller passes (by default the external \<open>bip39\<close> package's
  validator). The \<open>for\<close> loop over \<open>getAllLanguages()\<close> returns at the first success.
\<close>

fun validateLoop ::
  "(jsstring \<Rightarrow> jsstring list \<Rightarrow> bool) \<Rightarrow> wordlists \<Rightarrow> jsstring \<Rightarrow> MnemonicLanguages list \<Rightarrow> bool" where
  "validateLoop bip39ToUse wl mnemonic [] = False"
| "validateLoop bip39ToUse wl mnemonic (language # languages) =
     (if bip39ToUse mnemonic (getWordList wl (Some language)) then True
      else validateLoop bip39ToUse wl mnemonic languages)"

definition validateMnemonic ::
  "(jsstring \<Rightarrow> jsstring list \<Rightarrow> bool) \<Rightarrow> wordlists \<Rightarrow> jsstring \<Rightarrow> MnemonicLanguages option \<Rightarrow> bool" where
  "validateMnemonic bip39ToUse wl mnemonic language =
     (case language of
        Some l \<Rightarrow> bip39ToUse mnemonic (getWordList wl (Some l))
      | None \<Rightarrow> validateLoop bip39ToUse wl mnemonic getAllLanguages)"

section \<open>Splitting and joining\<close>

text \<open>
  The code units matched by \<open>\s\<close> in a regular expression and removed by
  \<open>String.prototype.trim\<close>: ECMAScript's WhiteSpace and LineTerminator.
\<close>

definition isWhiteSpace :: "nat \<Rightarrow> bool" where
  "isWhiteSpace c \<longleftrightarrow>
     c \<in> {0x9, 0xA, 0xB, 0xC, 0xD, 0x20, 0xA0, 0x1680, 0x2028, 0x2029, 0x202F, 0x205F,
          0x3000, 0xFEFF}
     \<or> (0x2000 \<le> c \<and> c \<le> 0x200A)"

definition trim :: "jsstring \<Rightarrow> jsstring" where
  "trim s = rev (dropWhile isWhiteSpace (rev (dropWhile isWhiteSpace s)))"

text \<open>
  \<open>s.split(/\s+/)\<close>: the scan of ECMAScript's split keeps the code units of the current
  piece in \<open>tok\<close>; a match of \<open>\s+\<close> closes the piece and consumes the whole run; the
  end of the string closes the last piece. The empty string has the single piece \<open>""\<close>,
  since \<open>\s+\<close> does not match it.
\<close>

function splitLoop :: "jsstring \<Rightarrow> jsstring \<Rightarrow> jsstring list" where
  "splitLoop tok [] = [tok]"
| "splitLoop tok (c # cs) =
     (if isWhiteSpace c then tok # splitLoop [] (dropWhile isWhiteSpace cs)
      else splitLoop (tok @ [c]) cs)"
  by pat_completeness auto
termination
  by (relation "measure (\<lambda>(tok, s). length s)")
     (auto simp: less_Suc_eq_le length_dropWhile_le)

definition split_whitespace :: "jsstring \<Rightarrow> jsstring list" where
  "split_whitespace s = (if s = [] then [s] else splitLoop [] s)"

definition splitMnemonic :: "jsstring \<Rightarrow> jsstring list" where
  "splitMnemonic mnemonic = split_whitespace (trim mnemonic)"

subsection \<open>Tokens and separators\<close>

text \<open>
  A token is a non-empty run of code units without white space; a separator is a
  non-empty run of white space. \<open>separated rest\<close> is the text of the tokens of \<open>rest\<close>,
  each after its separator.
\<close>

definition isToken :: "jsstring \<Rightarrow> bool" where
  "isToken t \<longleftrightarrow> t \<noteq> [] \<and> list_all (\<lambda>c. \<not> isWhiteSpace c) t"

definition isSeparator :: "jsstring \<Rightarrow> bool" where
  "isSeparator sep \<longleftrightarrow> sep \<noteq> [] \<and> list_all isWhiteSpace sep"

definition separated :: "(jsstring \<times> jsstring) list \<Rightarrow> jsstring" where
  "separated rest = concat (map (\<lambda>(sep, t). sep @ t) rest)"

text \<open>\<open>Array.prototype.join\<close> with a separator.\<close>

fun join :: "jsstring list \<Rightarrow> jsstring \<Rightarrow> jsstring" where
  "join [] sep = []"
| "join [w] sep = w"
| "join (w # ws) sep = w @ sep @ join ws sep"

definition joinMnemonic :: "jsstring list \<Rightarrow> MnemonicLanguages option \<Rightarrow> jsstring" where
  "joinMnemonic words language =
     join words (if language = Some japanese then [0x3000] else [0x20])"

section \<open>Normalization\<close>

definition isLatinBasedLanguage :: "MnemonicLanguages \<Rightarrow> bool" where
  "isLatinBasedLanguage language =
     (case language of
        english \<Rightarrow> True
      | french \<Rightarrow> True
      | italian \<Rightarrow> True
      | spanish \<Rightarrow> True
      | portuguese \<Rightarrow> True
      | chinese_simplified \<Rightarrow> False
      | chinese_traditional \<Rightarrow> False
      | japanese \<Rightarrow> False
      | korean \<Rightarrow> False)"

text \<open>
  \<open>new Map(entries)\<close>, read with \<open>get\<close> only: a later entry replaces an earlier one
  with the same key.
\<close>

definition newMap :: "('k \<times> 'v) list \<Rightarrow> ('k \<rightharpoonup> 'v)" where
  "newMap entries = fold (\<lambda>(k, v) m. m(k \<mapsto> v)) entries Map.empty"

text \<open>
  \<open>formatNonAccentedCharacters\<close> and \<open>normalizeMnemonic\<close>. \<open>normalizeAccents\<close> (from
  \<open>@celo/base/lib/string\<close>) and the built-in \<open>String.prototype.toLowerCase\<close> are
  parameters.
\<close>

definition formatNonAccentedCharacters ::
  "(jsstring \<Rightarrow> jsstring) \<Rightarrow> wordlists \<Rightarrow> jsstring list \<Rightarrow> MnemonicLanguages \<Rightarrow> jsstring list" where
  "formatNonAccentedCharacters normalizeAccents wl words language =
     (if isLatinBasedLanguage language then
        let wordList = getWordList wl (Some language);
            normalizedWordMap = newMap (map (\<lambda>w. (normalizeAccents w, w)) wordList)
        in map (\<lambda>w. case normalizedWordMap (normalizeAccents w) of Some v \<Rightarrow> v | None \<Rightarrow> w) words
      else words)"

definition normalizeMnemonic ::
  "(jsstring \<Rightarrow> jsstring) \<Rightarrow> (jsstring \<Rightarrow> jsstring) \<Rightarrow> wordlists \<Rightarrow> jsstring
     \<Rightarrow> MnemonicLanguages option \<Rightarrow> jsstring" where
  "normalizeMnemonic toLowerCase normalizeAccents wl mnemonic language =
     (let words = splitMnemonic mnemonic;
          lowered = map toLowerCase words;
          detectedLanguage =
            (case language of Some l \<Rightarrow> Some l | None \<Rightarrow> detectLanguage wl lowered None)
      in case detectedLanguage of
           None \<Rightarrow> joinMnemonic lowered detectedLanguage
         | Some l \<Rightarrow>
             joinMnemonic (formatNonAccentedCharacters normalizeAccents wl lowered l)
               detectedLanguage)"

section \<open>Suggestions\<close>

text \<open>
  Modelled from the spec: \<open>levenshteinDistance\<close> is imported from \<open>./levenshtein\<close>, which
  is not among the sources. The specification calls it the standard edit distance of
  single-character insertions, deletions and substitutions; this is its usual recurrence,
  over code units.
\<close>

fun levenshteinDistance :: "jsstring \<Rightarrow> jsstring \<Rightarrow> nat" where
  "levenshteinDistance [] b = length b"
| "levenshteinDistance a [] = length a"
| "levenshteinDistance (x # a) (y # b) =
     min (min (levenshteinDistance a (y # b) + 1) (levenshteinDistance (x # a) b + 1))
         (levenshteinDistance a b + (if x = y then 0 else 1))"

text \<open>
  The specification's glossary defines the edit distance as the minimum number of
  single-character insertions, deletions or substitutions that transform one word into
  the other. \<open>editsTo a b n\<close>: \<open>a\<close> is transformed into \<open>b\<close> with \<open>n\<close> such
  operations.
\<close>

inductive editsTo :: "jsstring \<Rightarrow> jsstring \<Rightarrow> nat \<Rightarrow> bool" where
  finished: "editsTo [] [] 0"
| keep: "editsTo a b n \<Longrightarrow> editsTo (x # a) (x # b) n"
| substitution: "editsTo a b n \<Longrightarrow> editsTo (x # a) (y # b) (Suc n)"
| deletion: "editsTo a b n \<Longrightarrow> editsTo (x # a) b (Suc n)"
| insertion: "editsTo a b n \<Longrightarrow> editsTo a (y # b) (Suc n)"

record Suggestion =
  distance :: int
  word :: jsstring

text \<open>
  \<open>wordSuggestions\<close>. \<open>Array.prototype.sort\<close> is stable (ECMAScript 2019), as is
  \<open>sort_key\<close>.
\<close>

definition wordSuggestions :: "wordlists \<Rightarrow> jsstring \<Rightarrow> MnemonicLanguages \<Rightarrow> Suggestion list" where
  "wordSuggestions wl typo language =
     sort_key distance
       (map (\<lambda>w. \<lparr>distance = int (levenshteinDistance typo w), word = w\<rparr>)
          (getWordList wl (Some language)))"

text \<open>
  A weight is a JavaScript number: a finite value or \<open>Infinity\<close> (the default of
  \<open>maxWeight\<close>). The operations are the ones the enumeration applies to \<open>maxWeight\<close>.
\<close>

datatype weight = Finite int | Infinity

fun weightLess :: "int \<Rightarrow> weight \<Rightarrow> bool" where
  "weightLess d (Finite m) = (d < m)"
| "weightLess d Infinity = True"

fun weightNegative :: "weight \<Rightarrow> bool" where
  "weightNegative (Finite m) = (m < 0)"
| "weightNegative Infinity = False"

fun weightMinus :: "weight \<Rightarrow> int \<Rightarrow> weight" where
  "weightMinus (Finite m) d = Finite (m - d)"
| "weightMinus Infinity d = Infinity"

text \<open>
  A generator is modelled by its complete run: the values it yields, in order, and the
  error that ends the run if one is thrown.
\<close>

datatype error = Error string

type_synonym 'a generated = "'a list \<times> error option"

definition programmingError :: error where
  "programmingError = Error ''programming error: suggestions map must have at least one entry''"

text \<open>
  \<open>SpotSuggestions\<close> is a \<open>Map\<close> from phrase index to suggestions: its entries in
  insertion order, with distinct keys. An assignment is one yielded list of
  \<open>[index, word]\<close> pairs.
\<close>

type_synonym SpotSuggestions = "(nat \<times> Suggestion list) list"

type_synonym assignment = "(nat \<times> jsstring) list"

definition suggestionsInRange :: "Suggestion list \<Rightarrow> int \<Rightarrow> weight \<Rightarrow> Suggestion list" where
  "suggestionsInRange suggestions minWeight maxWeight =
     takeWhile (\<lambda>s. weightLess (distance s) maxWeight)
       (dropWhile (\<lambda>s. distance s < minWeight) suggestions)"

text \<open>
  The \<open>while\<close> loop of the recursion case, over the suggestions in range: \<open>recurse w\<close>
  is the run of \<open>combineSuggestions(remaining, undefined, w)\<close>. An error thrown by the
  inner generator ends the run after the values already yielded.
\<close>

fun recursionCase ::
  "(weight \<Rightarrow> assignment generated) \<Rightarrow> nat \<Rightarrow> weight \<Rightarrow> Suggestion list \<Rightarrow> assignment generated" where
  "recursionCase recurse index maxWeight [] = ([], None)"
| "recursionCase recurse index maxWeight (suggestion # rest) =
     (let nextDistance = (case rest of [] \<Rightarrow> maxWeight | nextSuggestion # _ \<Rightarrow> Finite (distance nextSuggestion));
          (lists, thrown) = recurse (weightMinus nextDistance (distance suggestion));
          yielded = map (\<lambda>list. (index, word suggestion) # list) lists
      in case thrown of
           Some e \<Rightarrow> (yielded, Some e)
         | None \<Rightarrow>
             (let (later, thrown') = recursionCase recurse index maxWeight rest
              in (yielded @ later, thrown')))"

function combineSuggestions :: "SpotSuggestions \<Rightarrow> int \<Rightarrow> weight \<Rightarrow> assignment generated" where
  "combineSuggestions [] minWeight maxWeight = ([], Some programmingError)"
| "combineSuggestions ((index, suggestions) # others) minWeight maxWeight =
     (if minWeight < 0 \<or> weightNegative maxWeight then ([], Some programmingError)
      else if length ((index, suggestions) # others) = 1 then
        (map (\<lambda>suggestion. [(index, word suggestion)])
           (suggestionsInRange suggestions minWeight maxWeight), None)
      else
        recursionCase
          (\<lambda>w. combineSuggestions
                 (filter (\<lambda>(i, _). i \<noteq> index) ((index, suggestions) # others)) 0 w)
          index maxWeight (suggestionsInRange suggestions minWeight maxWeight))"
  by pat_completeness auto
termination
  by (relation "measure (\<lambda>(spots, minWeight, maxWeight). length spots)")
     (auto simp: less_Suc_eq_le)

definition suggestUnvalidatedCorrections ::
  "wordlists \<Rightarrow> jsstring list \<Rightarrow> MnemonicLanguages \<Rightarrow> jsstring generated" where
  "suggestUnvalidatedCorrections wl words language =
     (let invalidWords = map (\<lambda>(index, w). (w, index)) (enumerate 0 words)
      in if length invalidWords = 0 then ([], None)
         else
           let spotSuggestions =
                 map (\<lambda>(w, index). (index, wordSuggestions wl w language)) invalidWords;
               (lists, thrown) = combineSuggestions spotSuggestions 0 Infinity
           in (map (\<lambda>replacementList.
                      let replacements = newMap replacementList;
                          suggestedWords =
                            map (\<lambda>(i, w). case replacements i of Some r \<Rightarrow> r | None \<Rightarrow> w)
                              (enumerate 0 words)
                      in joinMnemonic suggestedWords (Some language))
                 lists,
               thrown))"

text \<open>
  \<open>suggestCorrections\<close> calls \<open>validateMnemonic(suggestion, undefined, lang)\<close>, that is
  with the default \<open>Bip39\<close> object, whose validator is the external package's
  \<open>bip39.validateMnemonic\<close>, here the parameter \<open>bip39Validate\<close>.
\<close>

definition suggestCorrections ::
  "(jsstring \<Rightarrow> jsstring list \<Rightarrow> bool) \<Rightarrow> wordlists \<Rightarrow> jsstring \<Rightarrow> MnemonicLanguages option
     \<Rightarrow> jsstring generated" where
  "suggestCorrections bip39Validate wl mnemonic language =
     (let words = splitMnemonic mnemonic;
          lang = (case language of Some l \<Rightarrow> Some l | None \<Rightarrow> detectLanguage wl words None)
      in case lang of
           None \<Rightarrow> ([], None)
         | Some l \<Rightarrow>
             (let (suggestions, thrown) = suggestUnvalidatedCorrections wl words l
              in (filter (\<lambda>suggestion. validateMnemonic bip39Validate wl suggestion (Some l))
                    suggestions,
                  thrown)))"

subsection \<open>The enumeration in the words of the specification\<close>

text \<open>
  The window \<open>[minWeight, maxWeight)\<close>, closed below and open above.
\<close>

definition inWindow :: "int \<Rightarrow> weight \<Rightarrow> int \<Rightarrow> bool" where
  "inWindow minWeight maxWeight d \<longleftrightarrow> minWeight \<le> d \<and> weightLess d maxWeight"

text \<open>
  Each head suggestion with the upper bound of the window of its recursive
  enumeration: the distance of the next-ranked suggestion less its own distance, and
  for the last suggestion \<open>maxWeight\<close> (unbounded at the top level, where \<open>maxWeight\<close> is
  \<open>Infinity\<close>) less its own distance.
\<close>

fun siblingWindows :: "weight \<Rightarrow> Suggestion list \<Rightarrow> (Suggestion \<times> weight) list" where
  "siblingWindows maxWeight [] = []"
| "siblingWindows maxWeight [s] = [(s, weightMinus maxWeight (distance s))]"
| "siblingWindows maxWeight (s # next # rest) =
     (s, Finite (distance next - distance s)) # siblingWindows maxWeight (next # rest)"

text \<open>
  One upper bound of a window is at most another: the first window lies inside the
  second.
\<close>

fun weightLe :: "weight \<Rightarrow> weight \<Rightarrow> bool" where
  "weightLe W Infinity = True"
| "weightLe Infinity (Finite m) = False"
| "weightLe (Finite a) (Finite b) = (a \<le> b)"

text \<open>
  The data model of \<open>SpotSuggestions\<close>: distinct positions, each with suggestions in
  non-decreasing order of distance; distances are not negative.
\<close>

definition rankedSuggestions :: "Suggestion list \<Rightarrow> bool" where
  "rankedSuggestions ss \<longleftrightarrow> sorted (map distance ss) \<and> (\<forall>s \<in> set ss. 0 \<le> distance s)"

definition wellFormedSpots :: "SpotSuggestions \<Rightarrow> bool" where
  "wellFormedSpots spots \<longleftrightarrow>
     distinct (map fst spots) \<and> (\<forall>(i, ss) \<in> set spots. rankedSuggestions ss)"

text \<open>
  An assignment of the positions of \<open>spots\<close> is given by one suggestion chosen for each
  position; its distance sum is the sum of the distances of the chosen suggestions.
\<close>

definition chosenFrom :: "SpotSuggestions \<Rightarrow> Suggestion list \<Rightarrow> bool" where
  "chosenFrom spots ss \<longleftrightarrow> list_all2 (\<lambda>(i, suggestions) s. s \<in> set suggestions) spots ss"

definition assignmentOf :: "SpotSuggestions \<Rightarrow> Suggestion list \<Rightarrow> assignment" where
  "assignmentOf spots ss = zip (map fst spots) (map word ss)"

definition totalDistance :: "Suggestion list \<Rightarrow> int" where
  "totalDistance ss = sum_list (map distance ss)"

text \<open>
  The suggestions for every token position, and the original token sequence with the
  replacements of an assignment substituted.
\<close>

definition spotSuggestionsFor :: "wordlists \<Rightarrow> jsstring list \<Rightarrow> MnemonicLanguages \<Rightarrow> SpotSuggestions" where
  "spotSuggestionsFor wl words language =
     map (\<lambda>(i, w). (i, wordSuggestions wl w language)) (enumerate 0 words)"

definition substituted :: "jsstring list \<Rightarrow> assignment \<Rightarrow> jsstring list" where
  "substituted words a = fold (\<lambda>(i, r) ws. ws[i := r]) a words"

text \<open>
  The joiner rule: the tokens joined with a single ASCII space, or with the ideographic
  space U+3000 when the language is Japanese.
\<close>

definition joiner :: "MnemonicLanguages \<Rightarrow> jsstring" where
  "joiner language = (if language = japanese then [0x3000] else [0x20])"

definition phraseText :: "jsstring list \<Rightarrow> MnemonicLanguages \<Rightarrow> jsstring" where
  "phraseText ws language =
     (case ws of [] \<Rightarrow> [] | t # us \<Rightarrow> t @ separated (map (\<lambda>u. (joiner language, u)) us))"

section \<open>Example data\<close>

text \<open>
  Small word lists for evaluating the functions on concrete input. The French list has
  two words, \<open>cote\<close> and the same letters with an acute accent on the final e, that
  differ by the accent only (233 is the code unit of e with an acute accent).
\<close>

definition exampleWordlists :: wordlists where
  "exampleWordlists language =
     (case language of
        english \<Rightarrow> [str ''cat'', str ''dog'', str ''sun'']
      | french \<Rightarrow> [str ''chat'', str ''cote'', str ''cot'' @ [233],
                   str ''d'' @ [233] @ str ''put'' @ [233], str ''sun'']
      | _ \<Rightarrow> [])"

text \<open>
  A validator in place of the checksum: it accepts the phrases with an even number of
  code units whose tokens are all words of the list.
\<close>

definition exampleValidate :: "jsstring \<Rightarrow> jsstring list \<Rightarrow> bool" where
  "exampleValidate mnemonic wordlist \<longleftrightarrow>
     even (length mnemonic) \<and> set (splitMnemonic mnemonic) \<subseteq> set wordlist"

text \<open>
  Accent stripping and lower-casing on the letters of the example lists: e with an acute
  accent loses the accent, the ASCII capitals are lowered.
\<close>

definition exampleStrip :: "jsstring \<Rightarrow> jsstring" where
  "exampleStrip s = map (\<lambda>c. if c = 233 then 101 else c) s"

definition exampleLower :: "jsstring \<Rightarrow> jsstring" where
  "exampleLower s = map (\<lambda>c. if 65 \<le> c \<and> c \<le> 90 then c + 32 else c) s"

text \<open>Suggestions for two positions.\<close>

definition exampleSpots :: SpotSuggestions where
  "exampleSpots =
     [(0, [\<lparr>distance = 0, word = str ''a''\<rparr>, \<lparr>distance = 1, word = str ''b''\<rparr>]),
      (1, [\<lparr>distance = 0, word = str ''c''\<rparr>, \<lparr>distance = 1, word = str ''d''\<rparr>,
           \<lparr>distance = 2, word = str ''e''\<rparr>])]"

text \<open>Suggestions for three positions.\<close>

definition exampleSpots3 :: SpotSuggestions where
  "exampleSpots3 =
     [(0, [\<lparr>distance = 0, word = str ''a''\<rparr>, \<lparr>distance = 2, word = str ''b''\<rparr>]),
      (1, [\<lparr>distance = 0, word = str ''c''\<rparr>, \<lparr>distance = 1, word = str ''d''\<rparr>]),
      (2, [\<lparr>distance = 0, word = str ''e''\<rparr>, \<lparr>distance = 1, word = str ''f''\<rparr>])]"

section \<open>Properties of language detection\<close>

lemma foldl_count_filter:
  "foldl (\<lambda>count word. if P word then count + 1 else count) (n::nat) ws
     = n + length (filter P ws)"
  by (induction ws arbitrary: n) auto

lemma leaders_invariant:
  fixes f :: "'a \<Rightarrow> nat"
  assumes "leaders = filter (\<lambda>c. f c = m) pre" and "m = Max (insert 0 (f ` set pre))"
  shows "foldl (\<lambda>(leaders, leadingScore) (candidate, score).
                  if score > leadingScore then ([candidate], score)
                  else if score = leadingScore then (leaders @ [candidate], leadingScore)
                  else (leaders, leadingScore))
           (leaders, m) (map (\<lambda>c. (c, f c)) cs)
         = (filter (\<lambda>c. f c = Max (insert 0 (f ` set (pre @ cs)))) (pre @ cs),
            Max (insert 0 (f ` set (pre @ cs))))"
  using assms
proof (induction cs arbitrary: leaders m pre)
  case Nil
  then show ?case by simp
next
  case (Cons c cs)
  let ?m' = "Max (insert 0 (f ` set (pre @ [c])))"
  have fin: "finite (insert 0 (f ` set pre))" by simp
  have "insert 0 (f ` set (pre @ [c])) = insert (f c) (insert 0 (f ` set pre))"
    by auto
  then have "?m' = max (f c) (Max (insert 0 (f ` set pre)))"
    using Max_insert [OF fin, of "f c"] by (simp del: Max_insert)
  then have m': "?m' = max (f c) m"
    using Cons.prems(2) by simp
  have below: "\<And>x. x \<in> set pre \<Longrightarrow> f x \<le> m"
    using Cons.prems(2) fin by (simp add: Max_ge)
  consider (gt) "f c > m" | (eq) "f c = m" | (lt) "f c < m" by linarith
  then show ?case
  proof cases
    case gt
    have "filter (\<lambda>x. f x = f c) pre = []"
      using gt by (auto simp: filter_empty_conv dest!: below)
    then have a: "[c] = filter (\<lambda>x. f x = f c) (pre @ [c])"
      by simp
    have b: "f c = ?m'" using gt m' by simp
    show ?thesis
      using Cons.IH [OF a b] gt by simp
  next
    case eq
    have a: "leaders @ [c] = filter (\<lambda>x. f x = m) (pre @ [c])"
      using eq Cons.prems(1) by simp
    have b: "m = ?m'" using eq m' by simp
    show ?thesis
      using Cons.IH [OF a b] eq by simp
  next
    case lt
    have a: "leaders = filter (\<lambda>x. f x = m) (pre @ [c])"
      using lt Cons.prems(1) by simp
    have b: "m = ?m'" using lt m' by simp
    show ?thesis
      using Cons.IH [OF a b] lt by simp
  qed
qed

lemma detectLanguage_detectSpec:
  "detectLanguage wl words candidates
     = detectSpec wl words (case candidates of None \<Rightarrow> getAllLanguages | Some cs \<Rightarrow> cs)"
proof -
  define cs where "cs = (case candidates of None \<Rightarrow> getAllLanguages | Some cs \<Rightarrow> cs)"
  define f where "f = matchScore wl words"
  define m where "m = Max (insert 0 (f ` set cs))"
  define best where "best = filter (\<lambda>c. f c = m) cs"
  have scores: "map (\<lambda>candidate.
                   (candidate,
                    foldl (\<lambda>count word.
                             if word \<in> set (getWordList wl (Some candidate)) then count + 1
                             else count)
                      (0::nat) words)) cs = map (\<lambda>c. (c, f c)) cs"
    by (simp add: f_def matchScore_def foldl_count_filter)
  have run: "foldl (\<lambda>(leaders, leadingScore) (candidate, score).
                  if score > leadingScore then ([candidate], score)
                  else if score = leadingScore then (leaders @ [candidate], leadingScore)
                  else (leaders, leadingScore))
           ([], 0) (map (\<lambda>c. (c, f c)) cs) = (best, m)"
    using leaders_invariant [of "[]" f 0 "[]" cs] by (simp add: best_def m_def)
  have lhs: "detectLanguage wl words candidates
               = (if length best \<noteq> 1 \<or> m < 1 then None else Some (best ! 0))"
    unfolding detectLanguage_def cs_def [symmetric] scores Let_def run by simp
  have mx: "maxScore wl words cs = m"
    by (simp add: maxScore_def m_def f_def)
  have rhs: "detectSpec wl words cs
               = (case best of [l] \<Rightarrow> if 1 \<le> m then Some l else None | _ \<Rightarrow> None)"
    unfolding detectSpec_def mx by (simp add: best_def f_def)
  show ?thesis
    unfolding cs_def [symmetric] lhs rhs
    by (cases best rule: list.exhaust; simp split: list.splits)
qed

lemma detectSpec_no_match:
  assumes "\<forall>c \<in> set cs. matchScore wl words c = 0"
  shows "detectSpec wl words cs = None"
proof -
  have "insert 0 (set (map (matchScore wl words) cs)) = {0}"
    using assms by auto
  then have "maxScore wl words cs = Max {0}"
    unfolding maxScore_def by (rule arg_cong)
  then have "maxScore wl words cs = 0"
    by simp
  then show ?thesis
    unfolding detectSpec_def by (simp split: list.splits)
qed

text \<open>
  C1. For every token list and candidate list (the nine languages when none is given),
  the score of a candidate is the number of tokens, duplicates counted, that its word
  list contains; \<open>detectLanguage\<close> returns a language exactly when that language is the
  only entry of the candidate list that attains the maximum score and the maximum is at
  least 1, and returns none in every other case.
\<close>

theorem detectLanguage_unique_maximum:
  "let cs = (case candidates of None \<Rightarrow> getAllLanguages | Some cs \<Rightarrow> cs);
       best = filter (\<lambda>c. matchScore wl words c = maxScore wl words cs) cs
   in (detectLanguage wl words candidates = Some l
         \<longleftrightarrow> best = [l] \<and> 1 \<le> maxScore wl words cs)
      \<and> (detectLanguage wl words candidates = None
         \<longleftrightarrow> \<not> (length best = 1 \<and> 1 \<le> maxScore wl words cs))"
  unfolding Let_def detectLanguage_detectSpec detectSpec_def
  by (simp split: list.splits)

theorem detectLanguage_unique_maximum_witness:
  "detectLanguage exampleWordlists [str ''cat'', str ''dog'', str ''chat''] None = Some english
   \<and> detectLanguage exampleWordlists [str ''sun''] None = None"
proof -
  have score:
    "matchScore exampleWordlists [str ''cat'', str ''dog'', str ''chat''] english = 2"
    "matchScore exampleWordlists [str ''cat'', str ''dog'', str ''chat''] french = 1"
    "matchScore exampleWordlists [str ''sun''] english = 1"
    "matchScore exampleWordlists [str ''sun''] french = 1"
    by (simp_all add: matchScore_def getWordList_def exampleWordlists_def str_def)
  have other:
    "matchScore exampleWordlists ws chinese_simplified = 0"
    "matchScore exampleWordlists ws chinese_traditional = 0"
    "matchScore exampleWordlists ws italian = 0"
    "matchScore exampleWordlists ws japanese = 0"
    "matchScore exampleWordlists ws korean = 0"
    "matchScore exampleWordlists ws spanish = 0"
    "matchScore exampleWordlists ws portuguese = 0" for ws
    by (simp_all add: matchScore_def getWordList_def exampleWordlists_def)
  have mx:
    "maxScore exampleWordlists [str ''cat'', str ''dog'', str ''chat''] getAllLanguages = 2"
    "maxScore exampleWordlists [str ''sun''] getAllLanguages = 1"
    by (simp_all add: maxScore_def getAllLanguages_def score other)
  show ?thesis
    using detectLanguage_unique_maximum
            [of None exampleWordlists "[str ''cat'', str ''dog'', str ''chat'']" english]
          detectLanguage_unique_maximum [of None exampleWordlists "[str ''sun'']"]
    by (simp add: Let_def mx) (simp add: getAllLanguages_def score other)
qed

section \<open>Properties of splitting\<close>

lemma splitLoop_token:
  "list_all (\<lambda>c. \<not> isWhiteSpace c) t \<Longrightarrow> splitLoop tok (t @ s) = splitLoop (tok @ t) s"
  by (induction t arbitrary: tok) auto

lemma dropWhile_blank:
  "list_all isWhiteSpace b \<Longrightarrow> s = [] \<or> \<not> isWhiteSpace (hd s) \<Longrightarrow> dropWhile isWhiteSpace (b @ s) = s"
  by (induction b) (auto simp: neq_Nil_conv dropWhile_eq_self_iff)

lemma splitLoop_separator:
  assumes "isSeparator sep" and "s = [] \<or> \<not> isWhiteSpace (hd s)"
  shows "splitLoop tok (sep @ s) = tok # splitLoop [] s"
proof -
  obtain c cs where sep: "sep = c # cs" "isWhiteSpace c" "list_all isWhiteSpace cs"
    using assms(1) by (cases sep) (auto simp: isSeparator_def)
  then show ?thesis
    using dropWhile_blank [OF sep(3) assms(2)] by simp
qed

lemma token_hd: "isToken t \<Longrightarrow> \<not> isWhiteSpace (hd (t @ s))"
  by (cases t) (auto simp: isToken_def)

lemma splitLoop_separated:
  "\<forall>(sep, t) \<in> set rest. isSeparator sep \<and> isToken t
     \<Longrightarrow> splitLoop tok (separated rest) = tok # map snd rest"
proof (induction rest arbitrary: tok)
  case Nil
  then show ?case by (simp add: separated_def)
next
  case (Cons p rest)
  obtain sep t where p: "p = (sep, t)" by (cases p)
  have sep: "isSeparator sep" and t: "isToken t"
    using Cons.prems p by auto
  have "splitLoop tok (separated (p # rest)) = splitLoop tok (sep @ (t @ separated rest))"
    by (simp add: separated_def p)
  also have "\<dots> = tok # splitLoop [] (t @ separated rest)"
    using splitLoop_separator [OF sep] token_hd [OF t] by blast
  also have "\<dots> = tok # splitLoop t (separated rest)"
    using splitLoop_token [of t "[]" "separated rest"] t by (simp add: isToken_def)
  also have "\<dots> = tok # t # map snd rest"
    using Cons.IH [of t] Cons.prems by simp
  finally show ?case by (simp add: p)
qed

lemma separated_last:
  "\<forall>(sep, t) \<in> set rest. isSeparator sep \<and> isToken t \<Longrightarrow> isToken t0
     \<Longrightarrow> \<not> isWhiteSpace (last (t0 @ separated rest))"
proof (induction rest arbitrary: t0)
  case Nil
  then show ?case by (auto simp: separated_def isToken_def list_all_iff)
next
  case (Cons p rest)
  obtain sep t where p: "p = (sep, t)" by (cases p)
  have t: "isToken t" using Cons.prems p by auto
  have ne: "t @ separated rest \<noteq> []" using t by (simp add: isToken_def)
  have "last (t0 @ separated (p # rest)) = last (t @ separated rest)"
    using ne by (simp add: separated_def p)
  then show ?case using Cons.IH [OF _ t] Cons.prems by simp
qed

lemma trim_phrase:
  assumes "list_all isWhiteSpace lead" and "list_all isWhiteSpace trail"
    and "x \<noteq> []" and "\<not> isWhiteSpace (hd x)" and "\<not> isWhiteSpace (last x)"
  shows "trim (lead @ x @ trail) = x"
proof -
  have "dropWhile isWhiteSpace (lead @ x @ trail) = x @ trail"
    using dropWhile_blank [OF assms(1), of "x @ trail"] assms(3,4) by simp
  moreover have "dropWhile isWhiteSpace (rev trail @ rev x) = rev x"
    using dropWhile_blank [of "rev trail" "rev x"] assms(2,3,5)
    by (simp add: hd_rev)
  ultimately show ?thesis by (simp add: trim_def)
qed

lemma trim_blank: "list_all isWhiteSpace s \<Longrightarrow> trim s = []"
proof -
  assume "list_all isWhiteSpace s"
  then have "dropWhile isWhiteSpace s = []"
    by (induction s) auto
  then show ?thesis by (simp only: trim_def rev.simps dropWhile.simps)
qed

lemma splitMnemonic_empty: "splitMnemonic [] = [[]]"
  by (simp add: splitMnemonic_def split_whitespace_def trim_def)

lemma splitMnemonic_separated:
  assumes "list_all isWhiteSpace lead" and "list_all isWhiteSpace trail" and "isToken t"
    and "\<forall>(sep, u) \<in> set rest. isSeparator sep \<and> isToken u"
  shows "splitMnemonic (lead @ t @ separated rest @ trail) = t # map snd rest"
proof -
  let ?x = "t @ separated rest"
  have ne: "?x \<noteq> []" using assms(3) by (simp add: isToken_def)
  have "trim (lead @ ?x @ trail) = ?x"
    using trim_phrase [of lead trail ?x] assms ne token_hd [of t "separated rest"]
      separated_last [of rest t] by blast
  then have "splitMnemonic (lead @ t @ separated rest @ trail) = splitLoop [] ?x"
    using ne by (simp add: splitMnemonic_def split_whitespace_def)
  also have "\<dots> = splitLoop t (separated rest)"
    using splitLoop_token [of t "[]" "separated rest"] assms(3) by (simp add: isToken_def)
  also have "\<dots> = t # map snd rest"
    using splitLoop_separated [of rest t] assms(4) by blast
  finally show ?thesis .
qed

text \<open>
  C8, as stated, fails on the empty string: \<open>"".split(/\s+/)\<close> is \<open>[""]\<close>, one empty
  token, not the empty sequence.
\<close>

theorem splitMnemonic_empty_counterexample: "splitMnemonic [] \<noteq> []"
  by (simp add: splitMnemonic_def split_whitespace_def trim_def)

text \<open>
  C8, amended. The tokens of a text are its maximal runs without white space: for a text
  made of a token followed by separator-token pairs, between leading and trailing white
  space, \<open>splitMnemonic\<close> returns exactly these tokens in order. A text of white space
  only, the empty string included, gives the single empty token.
\<close>

theorem splitMnemonic_tokens:
  "(list_all isWhiteSpace s \<longrightarrow> splitMnemonic s = [[]])
   \<and> (list_all isWhiteSpace lead \<and> list_all isWhiteSpace trail \<and> isToken t
        \<and> (\<forall>(sep, u) \<in> set rest. isSeparator sep \<and> isToken u)
        \<longrightarrow> splitMnemonic (lead @ t @ separated rest @ trail) = t # map snd rest)"
proof (intro conjI impI)
  assume "list_all isWhiteSpace s"
  then show "splitMnemonic s = [[]]"
    by (simp add: splitMnemonic_def trim_blank split_whitespace_def)
next
  assume "list_all isWhiteSpace lead \<and> list_all isWhiteSpace trail \<and> isToken t
        \<and> (\<forall>(sep, u) \<in> set rest. isSeparator sep \<and> isToken u)"
  then show "splitMnemonic (lead @ t @ separated rest @ trail) = t # map snd rest"
    by (intro splitMnemonic_separated) simp_all
qed

theorem splitMnemonic_tokens_witness:
  "splitMnemonic (str ''  '') = [[]]
   \<and> splitMnemonic (str '' cat  dog '') = [str ''cat'', str ''dog'']"
proof -
  have blank: "list_all isWhiteSpace (str ''  '')" "list_all isWhiteSpace (str '' '')"
    by (simp_all add: str_def isWhiteSpace_def)
  have tok: "isToken (str ''cat'')"
    by (simp add: isToken_def str_def isWhiteSpace_def)
  have rest: "\<forall>(sep, u) \<in> set [(str ''  '', str ''dog'')]. isSeparator sep \<and> isToken u"
    by (simp add: isToken_def isSeparator_def str_def isWhiteSpace_def)
  have "str '' cat  dog '' = str '' '' @ str ''cat'' @ separated [(str ''  '', str ''dog'')] @ str '' ''"
    by (simp add: separated_def str_def)
  then show ?thesis
    using splitMnemonic_tokens [of "str ''  ''" "str '' ''" "str '' ''" "str ''cat''"
        "[(str ''  '', str ''dog'')]"] blank tok rest
    by simp
qed

section \<open>Properties of the edit distance\<close>

text \<open>
  The recurrence is the minimum over the edit scripts: some script has that many
  operations and none has fewer. Two words are at distance 0 exactly when they are
  equal.
\<close>

lemma levenshteinDistance_Nil2: "levenshteinDistance a [] = length a"
  by (cases a) simp_all

lemma levenshteinDistance_same: "levenshteinDistance a a = 0"
  by (induction a) simp_all

lemma levenshteinDistance_zero: "levenshteinDistance a b = 0 \<Longrightarrow> a = b"
  by (induction a b rule: levenshteinDistance.induct) (auto split: if_splits)

lemma editsTo_insertions: "editsTo [] b (length b)"
  by (induction b) (auto intro: editsTo.intros)

lemma editsTo_deletions: "editsTo a [] (length a)"
  by (induction a) (auto intro: editsTo.intros)

lemma levenshteinDistance_attained: "editsTo a b (levenshteinDistance a b)"
proof (induction a b rule: levenshteinDistance.induct)
  case (1 b)
  then show ?case by (simp add: editsTo_insertions)
next
  case (2 v va)
  then show ?case using editsTo_deletions [of "v # va"] by simp
next
  case (3 x a y b)
  let ?d = "levenshteinDistance a (y # b) + 1"
  let ?i = "levenshteinDistance (x # a) b + 1"
  let ?s = "levenshteinDistance a b + (if x = y then 0 else 1)"
  have d: "editsTo (x # a) (y # b) ?d"
    using 3(1) by (auto intro: editsTo.deletion)
  have i: "editsTo (x # a) (y # b) ?i"
    using 3(2) by (auto intro: editsTo.insertion)
  have s: "editsTo (x # a) (y # b) ?s"
    using 3(3) by (auto intro: editsTo.keep editsTo.substitution)
  have "levenshteinDistance (x # a) (y # b) = min (min ?d ?i) ?s"
    by simp
  then show ?case
    using d i s by (metis min_def)
qed

lemma levenshteinDistance_least: "editsTo a b n \<Longrightarrow> levenshteinDistance a b \<le> n"
proof (induction rule: editsTo.induct)
  case finished
  then show ?case by simp
next
  case (keep a b n x)
  then show ?case by (simp add: min_le_iff_disj)
next
  case (substitution a b n x y)
  then show ?case by (simp add: min_le_iff_disj)
next
  case (deletion a b n x)
  show ?case
  proof (cases b)
    case Nil
    then show ?thesis
      using deletion.IH by (simp add: levenshteinDistance_Nil2)
  next
    case (Cons y b')
    then show ?thesis
      using deletion.IH by (simp add: min_le_iff_disj)
  qed
next
  case (insertion a b n y)
  show ?case
  proof (cases a)
    case Nil
    then show ?thesis
      using insertion.IH by simp
  next
    case (Cons x a')
    then show ?thesis
      using insertion.IH by (simp add: min_le_iff_disj)
  qed
qed

section \<open>Properties of the ranking\<close>

text \<open>
  C3. For every input word and language, \<open>wordSuggestions\<close> pairs every word of the
  language's list with its edit distance to the input word (the ranking is a permutation
  of these pairs), in non-decreasing order of distance, the entries of equal distance
  in word-list order; when the input word is in the list, the first entry is that word
  with distance 0.
\<close>

theorem wordSuggestions_ranking:
  "let wordList = getWordList wl (Some language);
       paired = map (\<lambda>w. \<lparr>distance = int (levenshteinDistance typo w), word = w\<rparr>) wordList;
       ranked = wordSuggestions wl typo language
   in mset ranked = mset paired
      \<and> sorted (map distance ranked)
      \<and> (\<forall>k. filter (\<lambda>s. distance s = k) ranked = filter (\<lambda>s. distance s = k) paired)
      \<and> (typo \<in> set wordList \<longrightarrow> ranked \<noteq> [] \<and> hd ranked = \<lparr>distance = 0, word = typo\<rparr>)"
proof -
  define wordList where "wordList = getWordList wl (Some language)"
  define mk where "mk = (\<lambda>w. \<lparr>distance = int (levenshteinDistance typo w), word = w\<rparr>)"
  define ranked where "ranked = sort_key distance (map mk wordList)"
  have first: "ranked \<noteq> [] \<and> hd ranked = \<lparr>distance = 0, word = typo\<rparr>" if "typo \<in> set wordList"
  proof -
    have mem: "mk typo \<in> set ranked"
      using that by (simp add: ranked_def)
    then have ne: "ranked \<noteq> []" by auto
    then have "hd ranked \<in> set (map mk wordList)"
      using hd_in_set [OF ne] by (simp add: ranked_def)
    then obtain w where w: "hd ranked = mk w" by auto
    have "sorted (map distance ranked)" by (simp add: ranked_def)
    then have "distance (hd ranked) \<le> distance (mk typo)"
      using mem ne by (cases ranked) auto
    then have "levenshteinDistance typo w = 0"
      by (simp add: w mk_def levenshteinDistance_same)
    then have "w = typo" by (rule levenshteinDistance_zero [symmetric])
    then show ?thesis using ne w by (simp add: mk_def levenshteinDistance_same)
  qed
  have "mset ranked = mset (map mk wordList)" "sorted (map distance ranked)"
    "\<forall>k. filter (\<lambda>s. distance s = k) ranked = filter (\<lambda>s. distance s = k) (map mk wordList)"
    by (simp_all add: ranked_def sort_key_stable)
  then show ?thesis
    using first
    unfolding Let_def wordSuggestions_def wordList_def [symmetric] mk_def [symmetric]
      ranked_def [symmetric]
    by blast
qed


theorem wordSuggestions_ranking_witness:
  "str ''sun'' \<in> set (getWordList exampleWordlists (Some french))
   \<and> hd (wordSuggestions exampleWordlists (str ''sun'') french)
       = \<lparr>distance = 0, word = str ''sun''\<rparr>
   \<and> sorted (map distance (wordSuggestions exampleWordlists (str ''sun'') french))"
proof -
  have "str ''sun'' \<in> set (getWordList exampleWordlists (Some french))"
    by (simp add: getWordList_def exampleWordlists_def str_def)
  then show ?thesis
    using wordSuggestions_ranking [of exampleWordlists french "str ''sun''"]
    by (simp add: Let_def)
qed

section \<open>Properties of normalization\<close>

lemma fold_update_map_of:
  "fold (\<lambda>(k, v) m. m(k \<mapsto> v)) entries m = m ++ map_of (rev entries)"
  by (induction entries arbitrary: m)
     (auto simp: fun_eq_iff map_add_def split: option.splits)

lemma newMap_map_of: "newMap entries = map_of (rev entries)"
  by (simp add: newMap_def fold_update_map_of)

lemma newMap_last:
  "newMap (map (\<lambda>w. (g w, w)) ws) k
     = (case filter (\<lambda>w. g w = k) ws of [] \<Rightarrow> None | v # vs \<Rightarrow> Some (last (v # vs)))"
proof (induction ws rule: rev_induct)
  case Nil
  then show ?case by (simp add: newMap_map_of)
next
  case (snoc w ws)
  then show ?case
    by (auto simp: newMap_map_of split: list.splits)
qed

lemma splitMnemonic_token: "isToken t \<Longrightarrow> splitMnemonic t = [t]"
proof -
  assume t: "isToken t"
  have "splitLoop [] (t @ []) = splitLoop ([] @ t) []"
    using t unfolding isToken_def by (intro splitLoop_token) simp
  moreover have "trim ([] @ t @ []) = t"
    using t token_hd [OF t, of "[]"] 
    by (intro trim_phrase) (auto simp: isToken_def list_all_iff)
  ultimately show ?thesis
    using t by (simp add: splitMnemonic_def split_whitespace_def isToken_def)
qed

lemma formatNonAccentedCharacters_single:
  assumes "isLatinBasedLanguage language" and "w \<in> set (getWordList wl (Some language))"
    and "normalizeAccents t = normalizeAccents w"
  shows "formatNonAccentedCharacters normalizeAccents wl [t] language
           = [last (filter (\<lambda>v. normalizeAccents v = normalizeAccents w)
                      (getWordList wl (Some language)))]"
proof -
  have "filter (\<lambda>v. normalizeAccents v = normalizeAccents w) (getWordList wl (Some language)) \<noteq> []"
    using assms(2) by (auto simp: filter_empty_conv)
  then show ?thesis
    using assms(1,3)
    by (simp add: formatNonAccentedCharacters_def newMap_last split: list.splits)
qed

lemma joinMnemonic_single: "joinMnemonic [w] language = w"
  by (simp add: joinMnemonic_def)

lemma normalizeMnemonic_word:
  assumes "w \<in> set (getWordList wl (Some language))" and "isToken w" and "toLowerCase w = w"
  shows "normalizeMnemonic toLowerCase normalizeAccents wl w (Some language)
           = (if isLatinBasedLanguage language
              then last (filter (\<lambda>v. normalizeAccents v = normalizeAccents w)
                           (getWordList wl (Some language)))
              else w)"
  using assms formatNonAccentedCharacters_single [of language w wl normalizeAccents w]
  by (simp add: normalizeMnemonic_def splitMnemonic_token joinMnemonic_single
      formatNonAccentedCharacters_def)

text \<open>
  C5. For every language \<open>L\<close> and every word \<open>w\<close> of the list of \<open>L\<close>,
  \<open>normalizeMnemonic w L\<close> is \<open>w\<close>. The word lists are external data; what is used of
  them is that \<open>w\<close> is a single token and its own lower-case form and, for a Latin-based
  language, that no other word of the list has the accent-stripped form of \<open>w\<close>.
\<close>

theorem normalizeMnemonic_canonical_word:
  assumes "w \<in> set (getWordList wl (Some language))" and "isToken w" and "toLowerCase w = w"
    and "isLatinBasedLanguage language
         \<longrightarrow> (\<forall>v \<in> set (getWordList wl (Some language)).
                normalizeAccents v = normalizeAccents w \<longrightarrow> v = w)"
  shows "normalizeMnemonic toLowerCase normalizeAccents wl w (Some language) = w"
proof (cases "isLatinBasedLanguage language")
  note word =
    normalizeMnemonic_word
      [where w = w and wl = wl and language = language and toLowerCase = toLowerCase
         and normalizeAccents = normalizeAccents]
  case False
  then show ?thesis
    using word assms(1,2,3) by simp
next
  note word =
    normalizeMnemonic_word
      [where w = w and wl = wl and language = language and toLowerCase = toLowerCase
         and normalizeAccents = normalizeAccents]
  case True
  let ?same = "filter (\<lambda>v. normalizeAccents v = normalizeAccents w)
                 (getWordList wl (Some language))"
  have "?same \<noteq> []"
    using assms(1) by (auto simp: filter_empty_conv)
  then have "last ?same \<in> set ?same" by (rule last_in_set)
  then have "last ?same = w"
    using assms(4) True by simp
  then show ?thesis
    using word assms(1,2,3) True by simp
qed

theorem normalizeMnemonic_canonical_word_witness:
  "str ''d'' @ [233] @ str ''put'' @ [233] \<in> set (getWordList exampleWordlists (Some french))
   \<and> normalizeMnemonic exampleLower exampleStrip exampleWordlists
         (str ''d'' @ [233] @ str ''put'' @ [233]) (Some french)
       = str ''d'' @ [233] @ str ''put'' @ [233]"
proof -
  let ?w = "str ''d'' @ [233] @ str ''put'' @ [233]"
  have mem: "?w \<in> set (getWordList exampleWordlists (Some french))"
    by (simp add: getWordList_def exampleWordlists_def str_def)
  have tok: "isToken ?w"
    by (simp add: isToken_def str_def isWhiteSpace_def)
  have low: "exampleLower ?w = ?w"
    by (simp add: exampleLower_def str_def)
  have inj: "isLatinBasedLanguage french
             \<longrightarrow> (\<forall>v \<in> set (getWordList exampleWordlists (Some french)).
                    exampleStrip v = exampleStrip ?w \<longrightarrow> v = ?w)"
    by (simp add: getWordList_def exampleWordlists_def exampleStrip_def str_def)
  show ?thesis
    using mem tok low inj
      normalizeMnemonic_canonical_word
        [where w = ?w and wl = exampleWordlists and language = french
           and toLowerCase = exampleLower and normalizeAccents = exampleStrip]
    by blast
qed

text \<open>
  C6. For a Latin-based language \<open>L\<close> and a word \<open>w\<close> of its list, normalizing the
  accent-stripped form of \<open>w\<close> with language \<open>L\<close> gives the last word of the list with
  that stripped form: it recovers \<open>w\<close> when no later word of the list collapses to the
  same stripped form. The stripped form is taken to be a single token that
  lower-casing and stripping leave as it is.
\<close>

theorem normalizeMnemonic_recovers_accents:
  assumes "isLatinBasedLanguage language" and "w \<in> set (getWordList wl (Some language))"
    and "isToken (normalizeAccents w)"
    and "normalizeAccents (toLowerCase (normalizeAccents w)) = normalizeAccents w"
  shows "normalizeMnemonic toLowerCase normalizeAccents wl (normalizeAccents w) (Some language)
           = last (filter (\<lambda>v. normalizeAccents v = normalizeAccents w)
                     (getWordList wl (Some language)))
         \<and> (getWordList wl (Some language) = earlier @ w # later
              \<and> (\<forall>v \<in> set later. normalizeAccents v \<noteq> normalizeAccents w)
              \<longrightarrow> normalizeMnemonic toLowerCase normalizeAccents wl (normalizeAccents w)
                    (Some language) = w)"
proof -
  let ?same = "filter (\<lambda>v. normalizeAccents v = normalizeAccents w) (getWordList wl (Some language))"
  have eq: "normalizeMnemonic toLowerCase normalizeAccents wl (normalizeAccents w) (Some language)
           = last ?same"
    using assms
      formatNonAccentedCharacters_single
        [of language w wl normalizeAccents "toLowerCase (normalizeAccents w)"]
    by (simp add: normalizeMnemonic_def splitMnemonic_token joinMnemonic_single)
  have "last ?same = w"
    if "getWordList wl (Some language) = earlier @ w # later"
      and "\<forall>v \<in> set later. normalizeAccents v \<noteq> normalizeAccents w"
  proof -
    have "filter (\<lambda>v. normalizeAccents v = normalizeAccents w) later = []"
      using that(2) by (auto simp: filter_empty_conv)
    then show ?thesis by (simp add: that(1))
  qed
  then show ?thesis using eq by simp
qed

theorem normalizeMnemonic_recovers_accents_witness:
  "exampleStrip (str ''d'' @ [233] @ str ''put'' @ [233]) = str ''depute''
   \<and> normalizeMnemonic exampleLower exampleStrip exampleWordlists (str ''depute'') (Some french)
       = str ''d'' @ [233] @ str ''put'' @ [233]"
proof -
  let ?w = "str ''d'' @ [233] @ str ''put'' @ [233]"
  have strip: "exampleStrip ?w = str ''depute''"
    by (simp add: exampleStrip_def str_def)
  have latin: "isLatinBasedLanguage french"
    by (simp add: isLatinBasedLanguage_def)
  have mem: "?w \<in> set (getWordList exampleWordlists (Some french))"
    by (simp add: getWordList_def exampleWordlists_def str_def)
  have tok: "isToken (exampleStrip ?w)"
    by (simp add: isToken_def exampleStrip_def str_def isWhiteSpace_def)
  have idem: "exampleStrip (exampleLower (exampleStrip ?w)) = exampleStrip ?w"
    by (simp add: exampleStrip_def exampleLower_def str_def)
  have pos: "getWordList exampleWordlists (Some french)
               = [str ''chat'', str ''cote'', str ''cot'' @ [233]] @ ?w # [str ''sun'']"
    by (simp add: getWordList_def exampleWordlists_def)
  have later: "\<forall>v \<in> set [str ''sun'']. exampleStrip v \<noteq> exampleStrip ?w"
    by (simp add: exampleStrip_def str_def)
  show ?thesis
    using strip latin mem tok idem pos later
      normalizeMnemonic_recovers_accents
        [where w = ?w and wl = exampleWordlists and language = french
           and toLowerCase = exampleLower and normalizeAccents = exampleStrip
           and earlier = "[str ''chat'', str ''cote'', str ''cot'' @ [233]]"
           and later = "[str ''sun'']"]
    by metis
qed

section \<open>Properties of validation\<close>

lemma validateLoop_list_ex:
  "validateLoop bip39ToUse wl mnemonic languages
     = list_ex (\<lambda>language. bip39ToUse mnemonic (getWordList wl (Some language))) languages"
  by (induction languages) auto

lemma getAllLanguages_complete: "set getAllLanguages = UNIV"
proof -
  have "language \<in> set getAllLanguages" for language
    by (cases language) (simp_all add: getAllLanguages_def)
  then show ?thesis by blast
qed

text \<open>
  C10. Without a language argument, \<open>validateMnemonic\<close> is true exactly when the
  validator accepts the mnemonic with the word list of at least one of the nine
  languages; the languages are tried in the order of \<open>getAllLanguages\<close>, each one only
  when all the earlier ones have failed.
\<close>

theorem validateMnemonic_without_language:
  "(validateMnemonic bip39ToUse wl mnemonic None
      \<longleftrightarrow> (\<exists>language. bip39ToUse mnemonic (getWordList wl (Some language))))
   \<and> validateMnemonic bip39ToUse wl mnemonic None
       = (find (\<lambda>language. bip39ToUse mnemonic (getWordList wl (Some language)))
            [chinese_simplified, chinese_traditional, english, french, italian,
             japanese, korean, spanish, portuguese] \<noteq> None)
   \<and> length getAllLanguages = 9 \<and> distinct getAllLanguages"
proof -
  have "validateMnemonic bip39ToUse wl mnemonic None
          \<longleftrightarrow> (\<exists>language \<in> set getAllLanguages.
                 bip39ToUse mnemonic (getWordList wl (Some language)))"
    by (simp add: validateMnemonic_def validateLoop_list_ex list_ex_iff)
  then have "validateMnemonic bip39ToUse wl mnemonic None
          \<longleftrightarrow> (\<exists>language. bip39ToUse mnemonic (getWordList wl (Some language)))"
    by (simp add: getAllLanguages_complete)
  moreover have "validateMnemonic bip39ToUse wl mnemonic None
       = (find (\<lambda>language. bip39ToUse mnemonic (getWordList wl (Some language)))
            [chinese_simplified, chinese_traditional, english, french, italian,
             japanese, korean, spanish, portuguese] \<noteq> None)"
    by (simp add: validateMnemonic_def getAllLanguages_def)
  moreover have "length getAllLanguages = 9 \<and> distinct getAllLanguages"
    by (simp add: getAllLanguages_def)
  ultimately show ?thesis by blast
qed

theorem validateMnemonic_without_language_witness:
  "validateMnemonic exampleValidate exampleWordlists (str ''chat'') None
   \<and> exampleValidate (str ''chat'') (getWordList exampleWordlists (Some french))
   \<and> \<not> validateMnemonic exampleValidate exampleWordlists (str ''bird'') None"
proof -
  have yes: "exampleValidate (str ''chat'') (getWordList exampleWordlists (Some french))"
    by (simp add: exampleValidate_def splitMnemonic_def split_whitespace_def trim_def
        isWhiteSpace_def getWordList_def exampleWordlists_def str_def)
  have no: "\<not> exampleValidate (str ''bird'') (getWordList exampleWordlists (Some language))"
    for language
    by (cases language)
       (simp_all add: exampleValidate_def splitMnemonic_def split_whitespace_def trim_def
          isWhiteSpace_def getWordList_def exampleWordlists_def str_def)
  show ?thesis
    using yes no
      validateMnemonic_without_language [of exampleValidate exampleWordlists "str ''chat''"]
      validateMnemonic_without_language [of exampleValidate exampleWordlists "str ''bird''"]
    by blast
qed

section \<open>Properties of the enumeration\<close>

lemma weightLess_mono: "d \<le> d' \<Longrightarrow> weightLess d' W \<Longrightarrow> weightLess d W"
  by (cases W) auto

lemma dropWhile_sorted_key:
  "sorted (map f xs) \<Longrightarrow> dropWhile (\<lambda>x. f x < (a::int)) xs = filter (\<lambda>x. a \<le> f x) xs"
proof (induction xs)
  case Nil
  then show ?case by simp
next
  case (Cons x xs)
  show ?case
  proof (cases "f x < a")
    case True
    then show ?thesis using Cons by simp
  next
    case False
    then have "\<forall>y \<in> set xs. a \<le> f y" using Cons.prems by auto
    then have "filter (\<lambda>x. a \<le> f x) xs = xs" by simp
    then show ?thesis using False by simp
  qed
qed

lemma takeWhile_sorted_key:
  "sorted (map distance xs)
     \<Longrightarrow> takeWhile (\<lambda>s. weightLess (distance s) W) xs = filter (\<lambda>s. weightLess (distance s) W) xs"
proof (induction xs)
  case Nil
  then show ?case by simp
next
  case (Cons x xs)
  show ?case
  proof (cases "weightLess (distance x) W")
    case True
    then show ?thesis using Cons by simp
  next
    case False
    have "\<not> weightLess (distance y) W" if "y \<in> set xs" for y
      using that False Cons.prems weightLess_mono [of "distance x" "distance y" W] by auto
    then have "filter (\<lambda>s. weightLess (distance s) W) xs = []"
      by (simp add: filter_empty_conv)
    then show ?thesis using False by simp
  qed
qed

lemma suggestionsInRange_filter:
  assumes "sorted (map distance ss)"
  shows "suggestionsInRange ss minWeight maxWeight
           = filter (\<lambda>s. inWindow minWeight maxWeight (distance s)) ss"
proof -
  have "sorted (map distance (filter (\<lambda>s. minWeight \<le> distance s) ss))"
    using assms by (rule sorted_filter)
  then show ?thesis
    using assms
    by (simp add: suggestionsInRange_def dropWhile_sorted_key takeWhile_sorted_key
        inWindow_def conj_commute)
qed

lemma recursionCase_exact:
  "\<forall>(s, W) \<in> set (siblingWindows maxWeight r). snd (recurse W) = None
     \<Longrightarrow> recursionCase recurse index maxWeight r
           = (concat (map (\<lambda>(s, W). map (\<lambda>list. (index, word s) # list) (fst (recurse W)))
                        (siblingWindows maxWeight r)), None)"
proof (induction maxWeight r rule: siblingWindows.induct)
  case (1 maxWeight)
  then show ?case by simp
next
  case (2 maxWeight s)
  then show ?case by (simp add: split_beta)
next
  case (3 maxWeight s "next" rest)
  then show ?case by (simp add: split_beta)
qed

lemma siblingWindows_bounds:
  assumes "sorted (map distance r)"
    and "\<forall>s \<in> set r. inWindow minWeight maxWeight (distance s)"
    and "(s, W) \<in> set (siblingWindows maxWeight r)"
  shows "s \<in> set r \<and> \<not> weightNegative W
         \<and> (\<forall>x. inWindow 0 W x \<longrightarrow> inWindow minWeight maxWeight (distance s + x))"
  using assms
proof (induction maxWeight r rule: siblingWindows.induct)
  case (1 maxWeight)
  then show ?case by simp
next
  case (2 maxWeight s')
  then show ?case by (cases maxWeight) (auto simp: inWindow_def)
next
  case (3 maxWeight s' "next" rest)
  show ?case
  proof (cases "(s, W) = (s', Finite (distance next - distance s'))")
    case True
    have "distance s' \<le> distance next" using "3.prems"(1) by simp
    moreover have "weightLess (distance next) maxWeight" "minWeight \<le> distance s'"
      using "3.prems"(2) by (simp_all add: inWindow_def)
    ultimately show ?thesis
      using True weightLess_mono [of _ "distance next" maxWeight]
      by (auto simp: inWindow_def)
  next
    case False
    then have "(s, W) \<in> set (siblingWindows maxWeight (next # rest))"
      using "3.prems"(3) by auto
    then show ?thesis
      using "3.IH" "3.prems"(1,2) by simp
  qed
qed

lemma combineSuggestions_sound:
  assumes "wellFormedSpots spots" and "spots \<noteq> []"
    and "0 \<le> minWeight" and "\<not> weightNegative maxWeight"
  shows "snd (combineSuggestions spots minWeight maxWeight) = None
         \<and> (\<forall>a \<in> set (fst (combineSuggestions spots minWeight maxWeight)).
               \<exists>ss. chosenFrom spots ss \<and> a = assignmentOf spots ss
                    \<and> inWindow minWeight maxWeight (totalDistance ss))"
  using assms
proof (induction spots arbitrary: minWeight maxWeight)
  case Nil
  then show ?case by simp
next
  case (Cons p others)
  obtain index suggestions where p: "p = (index, suggestions)" by (cases p)
  let ?r = "suggestionsInRange suggestions minWeight maxWeight"
  have ranked: "sorted (map distance suggestions)"
    using Cons.prems(1) by (simp add: wellFormedSpots_def p rankedSuggestions_def)
  have r: "?r = filter (\<lambda>s. inWindow minWeight maxWeight (distance s)) suggestions"
    using ranked by (rule suggestionsInRange_filter)
  show ?case
  proof (cases "others = []")
    case True
    have run: "combineSuggestions (p # others) minWeight maxWeight
            = (map (\<lambda>suggestion. [(index, word suggestion)]) ?r, None)"
      using True Cons.prems(3,4) by (simp add: p)
    have "\<exists>ss. chosenFrom (p # others) ss \<and> [(index, word s)] = assignmentOf (p # others) ss
               \<and> inWindow minWeight maxWeight (totalDistance ss)"
      if "s \<in> set ?r" for s
      using that True
      by (intro exI [of _ "[s]"]) (simp add: r chosenFrom_def assignmentOf_def totalDistance_def p)
    then show ?thesis
      unfolding run by auto
  next
    case False
    have wf: "wellFormedSpots others"
      using Cons.prems(1) by (simp add: wellFormedSpots_def)
    have "index \<notin> fst ` set others"
      using Cons.prems(1) by (simp add: wellFormedSpots_def p)
    then have remaining: "filter (\<lambda>(i, _). i \<noteq> index) others = others"
      by (force simp: filter_id_conv)
    let ?recurse = "\<lambda>w. combineSuggestions others 0 w"
    have sorted_r: "sorted (map distance ?r)"
      unfolding r using ranked by (rule sorted_filter)
    have in_r: "\<forall>s \<in> set ?r. inWindow minWeight maxWeight (distance s)"
      by (simp add: r)
    note bounds = siblingWindows_bounds [OF sorted_r in_r]
    have inner: "snd (?recurse W) = None
         \<and> (\<forall>a \<in> set (fst (?recurse W)).
               \<exists>ss. chosenFrom others ss \<and> a = assignmentOf others ss
                    \<and> inWindow 0 W (totalDistance ss))"
      if "(s, W) \<in> set (siblingWindows maxWeight ?r)" for s W
      using Cons.IH [OF wf False, of 0 W] bounds [OF that] by simp
    then have "\<forall>(s, W) \<in> set (siblingWindows maxWeight ?r). snd (?recurse W) = None"
      by auto
    then have run: "combineSuggestions (p # others) minWeight maxWeight
            = (concat (map (\<lambda>(s, W). map (\<lambda>list. (index, word s) # list) (fst (?recurse W)))
                        (siblingWindows maxWeight ?r)), None)"
      using False Cons.prems(3,4) recursionCase_exact [of maxWeight ?r ?recurse index]
      by (simp add: p remaining)
    have "\<exists>ss. chosenFrom (p # others) ss \<and> a = assignmentOf (p # others) ss
               \<and> inWindow minWeight maxWeight (totalDistance ss)"
      if "a \<in> set (fst (combineSuggestions (p # others) minWeight maxWeight))" for a
    proof -
      have "a \<in> set (concat (map (\<lambda>(s, W). map (\<lambda>list. (index, word s) # list)
                                                  (fst (?recurse W)))
                                   (siblingWindows maxWeight ?r)))"
        using that by (simp add: run)
      then obtain s W a' where sw: "(s, W) \<in> set (siblingWindows maxWeight ?r)"
        and a: "a = (index, word s) # a'" and a': "a' \<in> set (fst (?recurse W))"
        by (auto simp: split_beta)
      obtain ss where ss: "chosenFrom others ss" "a' = assignmentOf others ss"
        "inWindow 0 W (totalDistance ss)"
        using inner [OF sw] a' by blast
      have "s \<in> set suggestions"
        using bounds [OF sw] by (simp add: r)
      moreover have "inWindow minWeight maxWeight (distance s + totalDistance ss)"
        using bounds [OF sw] ss(3) by blast
      ultimately show ?thesis
        using ss(1,2) a
        by (intro exI [of _ "s # ss"])
           (simp add: chosenFrom_def assignmentOf_def totalDistance_def p)
    qed
    then show ?thesis
      using run by simp
  qed
qed

lemma siblingWindows_fst: "map fst (siblingWindows maxWeight r) = r"
  by (induction maxWeight r rule: siblingWindows.induct) simp_all

lemma combineSuggestions_single:
  assumes "sorted (map distance ranked)" and "0 \<le> minWeight" and "\<not> weightNegative maxWeight"
  shows "combineSuggestions [(position, ranked)] minWeight maxWeight
           = (map (\<lambda>s. [(position, word s)])
                (filter (\<lambda>s. inWindow minWeight maxWeight (distance s)) ranked), None)"
  using assms by (simp add: suggestionsInRange_filter)

lemma combineSuggestions_recursion:
  assumes "wellFormedSpots ((index, suggestions) # others)" and "others \<noteq> []"
    and "0 \<le> minWeight" and "\<not> weightNegative maxWeight"
  shows "combineSuggestions ((index, suggestions) # others) minWeight maxWeight
           = (concat (map (\<lambda>(s, W). map (\<lambda>list. (index, word s) # list)
                                     (fst (combineSuggestions others 0 W)))
                        (siblingWindows maxWeight
                           (filter (\<lambda>s. inWindow minWeight maxWeight (distance s)) suggestions))),
              None)"
proof -
  let ?r = "filter (\<lambda>s. inWindow minWeight maxWeight (distance s)) suggestions"
  have ranked: "sorted (map distance suggestions)"
    using assms(1) by (simp add: wellFormedSpots_def rankedSuggestions_def)
  have wf: "wellFormedSpots others"
    using assms(1) by (simp add: wellFormedSpots_def)
  have "index \<notin> fst ` set others"
    using assms(1) by (simp add: wellFormedSpots_def)
  then have remaining: "filter (\<lambda>(i, _). i \<noteq> index) others = others"
    by (force simp: filter_id_conv)
  have sorted_r: "sorted (map distance ?r)"
    using ranked by (rule sorted_filter)
  have in_r: "\<forall>s \<in> set ?r. inWindow minWeight maxWeight (distance s)"
    by simp
  have "snd (combineSuggestions others 0 W) = None"
    if "(s, W) \<in> set (siblingWindows maxWeight ?r)" for s W
    using combineSuggestions_sound [OF wf assms(2), of 0 W]
      siblingWindows_bounds [OF sorted_r in_r that] by simp
  then have "\<forall>(s, W) \<in> set (siblingWindows maxWeight ?r). snd (combineSuggestions others 0 W) = None"
    by auto
  then show ?thesis
    using assms(2,3,4) recursionCase_exact [of maxWeight ?r "\<lambda>w. combineSuggestions others 0 w" index]
    by (simp add: remaining suggestionsInRange_filter [OF ranked])
qed

lemma siblingWindows_Cons:
  "siblingWindows maxWeight (x # ys)
     = (x, case ys of [] \<Rightarrow> weightMinus maxWeight (distance x)
                    | y # _ \<Rightarrow> Finite (distance y - distance x))
       # siblingWindows maxWeight ys"
  by (cases ys) simp_all

lemma siblingWindows_within:
  assumes "sorted (map distance xs)"
    and "(s, W) \<in> set (siblingWindows maxWeight
                         (filter (\<lambda>s. inWindow minWeight maxWeight (distance s)) xs))"
  shows "\<exists>W'. (s, W') \<in> set (siblingWindows Infinity xs) \<and> weightLe W W'"
  using assms
proof (induction xs rule: induct_list012)
  case 1
  then show ?case by simp
next
  case (2 x)
  then show ?case by (auto split: if_splits)
next
  case (3 x n rest)
  let ?P = "\<lambda>s. inWindow minWeight maxWeight (distance s)"
  let ?ys = "filter ?P (n # rest)"
  have sorted_tl: "sorted (map distance (n # rest))"
    using "3.prems"(1) by simp
  have later: "\<exists>W'. (s, W') \<in> set (siblingWindows Infinity (x # n # rest)) \<and> weightLe W W'"
    if "(s, W) \<in> set (siblingWindows maxWeight ?ys)"
    using "3.IH"(2) [OF sorted_tl that] by auto
  show ?case
  proof (cases "?P x")
    case False
    then show ?thesis using "3.prems"(2) later by simp
  next
    case True
    have dx: "distance x \<le> distance n"
      using "3.prems"(1) by simp
    have head: "weightLe (case ?ys of [] \<Rightarrow> weightMinus maxWeight (distance x)
                            | y # _ \<Rightarrow> Finite (distance y - distance x))
                  (Finite (distance n - distance x))"
    proof (cases "?P n")
      case True
      then show ?thesis by simp
    next
      case False
      then have "\<not> weightLess (distance n) maxWeight"
        using \<open>?P x\<close> dx by (auto simp: inWindow_def)
      then obtain m where m: "maxWeight = Finite m" "m \<le> distance n"
        by (cases maxWeight) auto
      have "\<not> ?P z" if "z \<in> set rest" for z
        using that m "3.prems"(1) by (auto simp: inWindow_def)
      then have "filter ?P rest = []"
        by (simp add: filter_empty_conv)
      then show ?thesis
        using False m by simp
    qed
    have "(s, W) = (x, case ?ys of [] \<Rightarrow> weightMinus maxWeight (distance x)
                            | y # _ \<Rightarrow> Finite (distance y - distance x))
          \<or> (s, W) \<in> set (siblingWindows maxWeight ?ys)"
      using "3.prems"(2) True by (simp only: filter.simps if_True siblingWindows_Cons set_simps insert_iff)
    then show ?thesis
    proof
      assume "(s, W) = (x, case ?ys of [] \<Rightarrow> weightMinus maxWeight (distance x)
                            | y # _ \<Rightarrow> Finite (distance y - distance x))"
      then show ?thesis using head by auto
    next
      assume "(s, W) \<in> set (siblingWindows maxWeight ?ys)"
      then show ?thesis by (rule later)
    qed
  qed
qed

text \<open>
  C9. The run of \<open>combineSuggestions\<close> on an empty map throws the programming error
  before any value is yielded, and so does every run with a negative \<open>minWeight\<close> or
  \<open>maxWeight\<close>.
\<close>

theorem combineSuggestions_throws:
  "combineSuggestions [] minWeight maxWeight = ([], Some programmingError)
   \<and> (minWeight < 0 \<or> weightNegative maxWeight
        \<longrightarrow> combineSuggestions spots minWeight maxWeight = ([], Some programmingError))"
  by (cases spots) auto

theorem combineSuggestions_throws_witness:
  "combineSuggestions [] 0 Infinity = ([], Some programmingError)
   \<and> combineSuggestions [(0, [\<lparr>distance = 0, word = str ''cat''\<rparr>])] (- 1) Infinity
       = ([], Some programmingError)
   \<and> combineSuggestions [(0, [\<lparr>distance = 0, word = str ''cat''\<rparr>])] 0 (Finite (- 1))
       = ([], Some programmingError)"
  using combineSuggestions_throws [of 0 Infinity "[]"]
    combineSuggestions_throws [of "- 1" Infinity "[(0, [\<lparr>distance = 0, word = str ''cat''\<rparr>])]"]
    combineSuggestions_throws [of 0 "Finite (- 1)" "[(0, [\<lparr>distance = 0, word = str ''cat''\<rparr>])]"]
  by simp

text \<open>
  C2. For a map with at least two positions (distinct positions, suggestions ranked by
  non-decreasing, non-negative distance) and every window \<open>[minWeight, maxWeight)\<close>,
  hence for the enumeration of the whole map (\<open>[0, Infinity)\<close>, where every head
  suggestion is in range) and for every nested one: the enumeration iterates the head
  suggestions in range in list order, that is in ascending distance; for each head
  suggestion with distance \<open>d\<close> it yields the head's word in front of every assignment
  that the recursive enumeration of the remaining positions yields for the window
  \<open>[0, next - d)\<close>, where \<open>next\<close> is the distance of the next head suggestion in
  range, or \<open>maxWeight\<close> when none remains (unbounded for the whole map). Each such
  window lies inside the window \<open>[0, next - d)\<close> of the next-ranked suggestion of the
  head's list, unbounded when the list has no next suggestion, and every assignment
  enumerated there chooses one suggestion per remaining position with a distance sum
  inside the window. For a single position the enumeration yields each suggestion
  within the active window directly.
\<close>

theorem combineSuggestions_windowed:
  assumes "wellFormedSpots ((index, suggestions) # others)" and "others \<noteq> []"
    and "0 \<le> minWeight" and "\<not> weightNegative maxWeight"
  shows "let inRange = filter (\<lambda>s. inWindow minWeight maxWeight (distance s)) suggestions
         in combineSuggestions ((index, suggestions) # others) minWeight maxWeight
              = (concat (map (\<lambda>(s, W). map (\<lambda>list. (index, word s) # list)
                                        (fst (combineSuggestions others 0 W)))
                           (siblingWindows maxWeight inRange)),
                 None)
            \<and> map fst (siblingWindows maxWeight inRange) = inRange
            \<and> sorted (map distance inRange)
            \<and> (minWeight = 0 \<and> maxWeight = Infinity \<longrightarrow> inRange = suggestions)
            \<and> (\<forall>(s, W) \<in> set (siblingWindows maxWeight inRange).
                  (\<exists>W'. (s, W') \<in> set (siblingWindows Infinity suggestions) \<and> weightLe W W')
                  \<and> (\<forall>a \<in> set (fst (combineSuggestions others 0 W)).
                        \<exists>ss. chosenFrom others ss \<and> a = assignmentOf others ss
                             \<and> inWindow 0 W (totalDistance ss)))
            \<and> (\<forall>position ranked lo hi.
                  sorted (map distance ranked) \<and> 0 \<le> lo \<and> \<not> weightNegative hi
                  \<longrightarrow> combineSuggestions [(position, ranked)] lo hi
                        = (map (\<lambda>s. [(position, word s)])
                             (filter (\<lambda>s. inWindow lo hi (distance s)) ranked),
                           None))"
proof -
  define inRange where "inRange = filter (\<lambda>s. inWindow minWeight maxWeight (distance s)) suggestions"
  have ranked: "sorted (map distance suggestions)" "\<forall>s \<in> set suggestions. 0 \<le> distance s"
    using assms(1) by (simp_all add: wellFormedSpots_def rankedSuggestions_def)
  have wf: "wellFormedSpots others"
    using assms(1) by (simp add: wellFormedSpots_def)
  have sorted_r: "sorted (map distance inRange)"
    unfolding inRange_def using ranked(1) by (rule sorted_filter)
  have in_r: "\<forall>s \<in> set inRange. inWindow minWeight maxWeight (distance s)"
    by (simp add: inRange_def)
  have run: "combineSuggestions ((index, suggestions) # others) minWeight maxWeight
              = (concat (map (\<lambda>(s, W). map (\<lambda>list. (index, word s) # list)
                                        (fst (combineSuggestions others 0 W)))
                           (siblingWindows maxWeight inRange)),
                 None)"
    unfolding inRange_def by (rule combineSuggestions_recursion [OF assms])
  have top: "inRange = suggestions" if "minWeight = 0 \<and> maxWeight = Infinity"
    using that ranked(2) by (simp add: inRange_def inWindow_def)
  have within: "\<exists>W'. (s, W') \<in> set (siblingWindows Infinity suggestions) \<and> weightLe W W'"
    if "(s, W) \<in> set (siblingWindows maxWeight inRange)" for s W
    using siblingWindows_within [OF ranked(1)] that unfolding inRange_def by blast
  have sound: "\<exists>ss. chosenFrom others ss \<and> a = assignmentOf others ss
                      \<and> inWindow 0 W (totalDistance ss)"
    if "(s, W) \<in> set (siblingWindows maxWeight inRange)"
      and "a \<in> set (fst (combineSuggestions others 0 W))" for s W a
    using combineSuggestions_sound [OF wf assms(2), of 0 W]
      siblingWindows_bounds [OF sorted_r in_r that(1)] that(2) by simp
  have single: "combineSuggestions [(position, ranked)] lo hi
                        = (map (\<lambda>s. [(position, word s)])
                             (filter (\<lambda>s. inWindow lo hi (distance s)) ranked),
                           None)"
    if "sorted (map distance ranked) \<and> 0 \<le> lo \<and> \<not> weightNegative hi"
    for position ranked lo hi
    using that combineSuggestions_single by blast
  have fst_r: "map fst (siblingWindows maxWeight inRange) = inRange"
    by (rule siblingWindows_fst)
  have pairs: "\<forall>(s, W) \<in> set (siblingWindows maxWeight inRange).
                  (\<exists>W'. (s, W') \<in> set (siblingWindows Infinity suggestions) \<and> weightLe W W')
                  \<and> (\<forall>a \<in> set (fst (combineSuggestions others 0 W)).
                        \<exists>ss. chosenFrom others ss \<and> a = assignmentOf others ss
                             \<and> inWindow 0 W (totalDistance ss))"
    using within sound by blast
  show ?thesis
    unfolding Let_def inRange_def [symmetric]
    using run fst_r sorted_r top pairs single by blast
qed

theorem combineSuggestions_windowed_witness:
  "wellFormedSpots exampleSpots3
   \<and> combineSuggestions exampleSpots3 0 Infinity
       = ([[(0, str ''a''), (1, str ''c''), (2, str ''e'')],
           [(0, str ''a''), (1, str ''d''), (2, str ''e'')],
           [(0, str ''b''), (1, str ''c''), (2, str ''e'')],
           [(0, str ''b''), (1, str ''d''), (2, str ''e'')],
           [(0, str ''b''), (1, str ''d''), (2, str ''f'')]], None)
   \<and> combineSuggestions (tl exampleSpots3) 0 (Finite 2)
       = ([[(1, str ''c''), (2, str ''e'')], [(1, str ''d''), (2, str ''e'')]], None)"
proof -
  let ?p0 = "[\<lparr>distance = 0, word = str ''a''\<rparr>, \<lparr>distance = 2, word = str ''b''\<rparr>]"
  let ?p1 = "[\<lparr>distance = 0, word = str ''c''\<rparr>, \<lparr>distance = 1, word = str ''d''\<rparr>]"
  let ?p2 = "[\<lparr>distance = 0, word = str ''e''\<rparr>, \<lparr>distance = 1, word = str ''f''\<rparr>]"
  have wf: "wellFormedSpots ((0, ?p0) # [(1, ?p1), (2, ?p2)])"
    by (simp add: wellFormedSpots_def rankedSuggestions_def)
  have wf': "wellFormedSpots ((1, ?p1) # [(2, ?p2)])"
    by (simp add: wellFormedSpots_def rankedSuggestions_def)
  have ne: "[(1::nat, ?p1), (2, ?p2)] \<noteq> []" "[(2::nat, ?p2)] \<noteq> []"
    by simp_all
  have lo: "(0::int) \<le> 0" by simp
  have hi: "\<not> weightNegative Infinity" "\<not> weightNegative (Finite 2)" by simp_all
  note whole = combineSuggestions_windowed [OF wf ne(1) lo hi(1)]
  note nested = combineSuggestions_windowed [OF wf' ne(2) lo hi(2)]
  have single: "combineSuggestions [(2, ?p2)] 0 (Finite 1) = ([[(2, str ''e'')]], None)"
    "combineSuggestions [(2, ?p2)] 0 Infinity = ([[(2, str ''e'')], [(2, str ''f'')]], None)"
    using nested by (simp_all add: Let_def inWindow_def suggestionsInRange_def)
  have inner: "combineSuggestions ((1, ?p1) # [(2, ?p2)]) 0 (Finite 2)
       = ([[(1, str ''c''), (2, str ''e'')], [(1, str ''d''), (2, str ''e'')]], None)"
    using nested by (simp add: Let_def inWindow_def suggestionsInRange_def)
  have inner': "combineSuggestions ((1, ?p1) # [(2, ?p2)]) 0 Infinity
       = ([[(1, str ''c''), (2, str ''e'')], [(1, str ''d''), (2, str ''e'')],
           [(1, str ''d''), (2, str ''f'')]], None)"
    using combineSuggestions_windowed [OF wf' ne(2) lo hi(1)]
    by (simp add: Let_def inWindow_def suggestionsInRange_def)
  have run: "combineSuggestions ((0, ?p0) # [(1, ?p1), (2, ?p2)]) 0 Infinity
       = ([[(0, str ''a''), (1, str ''c''), (2, str ''e'')],
           [(0, str ''a''), (1, str ''d''), (2, str ''e'')],
           [(0, str ''b''), (1, str ''c''), (2, str ''e'')],
           [(0, str ''b''), (1, str ''d''), (2, str ''e'')],
           [(0, str ''b''), (1, str ''d''), (2, str ''f'')]], None)"
    using whole by (simp add: Let_def inWindow_def suggestionsInRange_def)
  show ?thesis
    unfolding exampleSpots3_def using wf run inner by simp
qed

text \<open>
  The recursive enumeration stays inside its window but need not exhaust it: with the
  window \<open>[0, 3)\<close> the example yields three assignments, and not the one that chooses
  \<open>a\<close> (distance 0) and \<open>d\<close> (distance 1), whose distance sum 1 is inside the window.
\<close>

lemma combineSuggestions_not_exhaustive:
  "combineSuggestions exampleSpots 0 (Finite 3)
     = ([[(0, str ''a''), (1, str ''c'')], [(0, str ''b''), (1, str ''c'')],
         [(0, str ''b''), (1, str ''d'')]], None)
   \<and> chosenFrom exampleSpots [\<lparr>distance = 0, word = str ''a''\<rparr>, \<lparr>distance = 1, word = str ''d''\<rparr>]
   \<and> inWindow 0 (Finite 3)
        (totalDistance [\<lparr>distance = 0, word = str ''a''\<rparr>, \<lparr>distance = 1, word = str ''d''\<rparr>])
   \<and> assignmentOf exampleSpots [\<lparr>distance = 0, word = str ''a''\<rparr>, \<lparr>distance = 1, word = str ''d''\<rparr>]
       \<notin> set (fst (combineSuggestions exampleSpots 0 (Finite 3)))"
  by (simp add: exampleSpots_def suggestionsInRange_def chosenFrom_def inWindow_def
      totalDistance_def assignmentOf_def str_def)

section \<open>Properties of the corrections\<close>

text \<open>
  C7. When no language is supplied and detection on the tokens of the phrase returns
  none, \<open>suggestCorrections\<close> yields nothing (and throws nothing). In particular this is
  so for the empty phrase, whose only token is the empty string, which is not a word of
  any list.
\<close>

theorem suggestCorrections_without_language:
  "(detectLanguage wl (splitMnemonic mnemonic) None = None
      \<longrightarrow> suggestCorrections bip39Validate wl mnemonic None = ([], None))
   \<and> ((\<forall>language. [] \<notin> set (getWordList wl (Some language)))
      \<longrightarrow> suggestCorrections bip39Validate wl [] None = ([], None))"
proof (intro conjI impI)
  assume "detectLanguage wl (splitMnemonic mnemonic) None = None"
  then show "suggestCorrections bip39Validate wl mnemonic None = ([], None)"
    by (simp add: suggestCorrections_def)
next
  assume "\<forall>language. [] \<notin> set (getWordList wl (Some language))"
  then have "\<forall>c \<in> set getAllLanguages. matchScore wl [[]] c = 0"
    by (simp add: matchScore_def)
  then have "detectLanguage wl [[]] None = None"
    by (simp add: detectLanguage_detectSpec detectSpec_no_match)
  then show "suggestCorrections bip39Validate wl [] None = ([], None)"
    by (simp add: suggestCorrections_def splitMnemonic_empty)
qed

theorem suggestCorrections_without_language_witness:
  "suggestCorrections exampleValidate exampleWordlists (str ''bird'') None = ([], None)
   \<and> suggestCorrections exampleValidate exampleWordlists [] None = ([], None)"
proof -
  have "splitMnemonic (str ''bird'') = [str ''bird'']"
    by (simp add: splitMnemonic_def split_whitespace_def trim_def str_def isWhiteSpace_def)
  moreover have "detectLanguage exampleWordlists [str ''bird''] None = None"
    by (simp add: detectLanguage_def getAllLanguages_def getWordList_def
        exampleWordlists_def str_def)
  moreover have "[] \<notin> set (getWordList exampleWordlists (Some language))" for language
    by (cases language) (simp_all add: getWordList_def exampleWordlists_def str_def)
  ultimately show ?thesis
    using suggestCorrections_without_language
            [of exampleWordlists "str ''bird''" exampleValidate]
    by simp
qed

lemma splitLoop_nonempty: "splitLoop tok s \<noteq> []"
  by (induction tok s rule: splitLoop.induct) simp_all

lemma splitMnemonic_nonempty: "splitMnemonic mnemonic \<noteq> []"
  by (simp add: splitMnemonic_def split_whitespace_def splitLoop_nonempty)

lemma wordSuggestions_ranked: "rankedSuggestions (wordSuggestions wl typo language)"
  by (auto simp: rankedSuggestions_def wordSuggestions_def)

lemma spotSuggestionsFor_keys: "map fst (spotSuggestionsFor wl words language) = [0..<length words]"
  by (simp add: spotSuggestionsFor_def split_beta comp_def map_fst_enumerate)

lemma spotSuggestionsFor_wellFormed: "wellFormedSpots (spotSuggestionsFor wl words language)"
  unfolding wellFormedSpots_def spotSuggestionsFor_keys
  by (auto simp: spotSuggestionsFor_def wordSuggestions_ranked)

lemma fold_update_length: "length (fold (\<lambda>(i, r) ws. ws[i := r]) a words) = length words"
  by (induction a arbitrary: words) (simp_all add: split_beta)

lemma substituted_get:
  "map (\<lambda>(i, w). case newMap a i of Some r \<Rightarrow> r | None \<Rightarrow> w) (enumerate 0 words)
     = substituted words a"
proof (induction a rule: rev_induct)
  case Nil
  then show ?case
    by (simp add: newMap_def substituted_def split_beta map_snd_enumerate)
next
  case (snoc e a)
  obtain k v where e: "e = (k, v)" by (cases e)
  have m: "newMap (a @ [e]) = (newMap a)(k \<mapsto> v)"
    by (simp add: newMap_def e)
  have s: "substituted words (a @ [e]) = (substituted words a)[k := v]"
    by (simp add: substituted_def e)
  show ?case
  proof (rule nth_equalityI)
    show "length (map (\<lambda>(i, w). case newMap (a @ [e]) i of Some r \<Rightarrow> r | None \<Rightarrow> w)
                    (enumerate 0 words))
            = length (substituted words (a @ [e]))"
      unfolding s by (simp add: substituted_def fold_update_length)
  next
    fix i
    assume "i < length (map (\<lambda>(i, w). case newMap (a @ [e]) i of Some r \<Rightarrow> r | None \<Rightarrow> w)
                          (enumerate 0 words))"
    then have i: "i < length words" by simp
    have "map (\<lambda>(i, w). case newMap a i of Some r \<Rightarrow> r | None \<Rightarrow> w) (enumerate 0 words) ! i
            = substituted words a ! i"
      using snoc by simp
    then have old: "(case newMap a i of Some r \<Rightarrow> r | None \<Rightarrow> words ! i) = substituted words a ! i"
      using i by (simp add: nth_enumerate_eq)
    have len: "i < length (substituted words a)"
      using i by (simp add: substituted_def fold_update_length)
    show "map (\<lambda>(i, w). case newMap (a @ [e]) i of Some r \<Rightarrow> r | None \<Rightarrow> w)
            (enumerate 0 words) ! i
          = substituted words (a @ [e]) ! i"
      using i old len by (simp add: nth_enumerate_eq m s nth_list_update)
  qed
qed

lemma substituted_all:
  assumes "length vs = length words"
  shows "substituted words (zip [0..<length words] vs) = vs"
proof -
  let ?a = "zip [0..<length words] vs"
  have get: "newMap ?a i = Some (vs ! i)" if "i < length words" for i
  proof -
    have "distinct (map fst ?a)" using assms by simp
    then have "map_of (rev ?a) = map_of ?a"
      by (subst map_of_inject_set) (simp_all add: rev_map [symmetric])
    then have "newMap ?a = map_of ?a"
      by (simp add: newMap_map_of)
    moreover have "map_of ?a ([0..<length words] ! i) = Some (vs ! i)"
      using assms that by (intro map_of_zip_nth) simp_all
    ultimately show ?thesis using that by simp
  qed
  have "map (\<lambda>(i, w). case newMap ?a i of Some r \<Rightarrow> r | None \<Rightarrow> w) (enumerate 0 words) = vs"
    using assms by (intro nth_equalityI) (simp_all add: nth_enumerate_eq get)
  then show ?thesis by (simp add: substituted_get)
qed

lemma suggestUnvalidatedCorrections_run:
  assumes "words \<noteq> []"
  shows "suggestUnvalidatedCorrections wl words language
           = (map (\<lambda>a. joinMnemonic (substituted words a) (Some language))
                (fst (combineSuggestions (spotSuggestionsFor wl words language) 0 Infinity)),
              None)"
proof -
  have spots: "map (\<lambda>(w, index). (index, wordSuggestions wl w language))
                 (map (\<lambda>(index, w). (w, index)) (enumerate 0 words))
               = spotSuggestionsFor wl words language"
    by (simp add: spotSuggestionsFor_def split_beta comp_def)
  have ne: "spotSuggestionsFor wl words language \<noteq> []"
    using assms by (cases words) (simp_all add: spotSuggestionsFor_def)
  have "snd (combineSuggestions (spotSuggestionsFor wl words language) 0 Infinity) = None"
    using combineSuggestions_sound [OF spotSuggestionsFor_wellFormed ne, of 0 Infinity] by simp
  moreover have "enumerate 0 words \<noteq> []"
    using assms by (cases words) simp_all
  ultimately show ?thesis
    unfolding suggestUnvalidatedCorrections_def Let_def spots
    using assms by (simp add: substituted_get split_beta)
qed

lemma join_separated: "join (t # us) sep = t @ separated (map (\<lambda>u. (sep, u)) us)"
  by (induction us arbitrary: t) (simp_all add: separated_def)

lemma joinMnemonic_phraseText: "joinMnemonic ws (Some language) = phraseText ws language"
  by (cases ws) (simp_all add: joinMnemonic_def phraseText_def joiner_def join_separated)

lemma splitMnemonic_phraseText:
  assumes "ws \<noteq> []" and "\<forall>w \<in> set ws. isToken w"
  shows "splitMnemonic (phraseText ws language) = ws"
proof -
  obtain t us where ws: "ws = t # us" using assms(1) by (cases ws) auto
  have sep: "isSeparator (joiner language)"
    by (simp add: isSeparator_def joiner_def isWhiteSpace_def)
  have "splitMnemonic ([] @ t @ separated (map (\<lambda>u. (joiner language, u)) us) @ [])
          = t # map snd (map (\<lambda>u. (joiner language, u)) us)"
    using assms(2) sep by (intro splitMnemonic_separated) (auto simp: ws)
  then show ?thesis
    by (simp add: ws phraseText_def comp_def)
qed

lemma chosen_words:
  assumes "chosenFrom (spotSuggestionsFor wl words language) ss"
  shows "set (map word ss) \<subseteq> set (getWordList wl (Some language))"
proof
  fix r assume "r \<in> set (map word ss)"
  then obtain j where j: "j < length ss" "r = word (ss ! j)"
    by (auto simp: in_set_conv_nth)
  have len: "length (spotSuggestionsFor wl words language) = length ss"
    using assms by (auto simp: chosenFrom_def dest: list_all2_lengthD)
  then have jw: "j < length words"
    using j(1) by (simp add: spotSuggestionsFor_def)
  have "(\<lambda>(i, suggestions) s. s \<in> set suggestions)
          (spotSuggestionsFor wl words language ! j) (ss ! j)"
    using list_all2_nthD [OF assms [unfolded chosenFrom_def], of j] j(1) len by simp
  then have "ss ! j \<in> set (wordSuggestions wl (words ! j) language)"
    using jw by (simp add: spotSuggestionsFor_def nth_enumerate_eq)
  then show "r \<in> set (getWordList wl (Some language))"
    by (auto simp: wordSuggestions_def j(2))
qed

lemma enumerated_assignment:
  assumes "words \<noteq> []"
    and "a \<in> set (fst (combineSuggestions (spotSuggestionsFor wl words language) 0 Infinity))"
  shows "map fst a = [0..<length words] \<and> substituted words a = map snd a
         \<and> set (map snd a) \<subseteq> set (getWordList wl (Some language))"
proof -
  let ?spots = "spotSuggestionsFor wl words language"
  have ne: "?spots \<noteq> []"
    using assms(1) by (cases words) (simp_all add: spotSuggestionsFor_def)
  obtain ss where ss: "chosenFrom ?spots ss" "a = assignmentOf ?spots ss"
    using combineSuggestions_sound [OF spotSuggestionsFor_wellFormed ne, of 0 Infinity] assms(2)
    by auto
  have len: "length ss = length words"
    using ss(1) by (auto simp: chosenFrom_def spotSuggestionsFor_def dest: list_all2_lengthD)
  have a: "a = zip [0..<length words] (map word ss)"
    by (simp add: ss(2) assignmentOf_def spotSuggestionsFor_keys)
  show ?thesis
    using len substituted_all [of "map word ss" words] chosen_words [OF ss(1)]
    by (simp add: a)
qed

text \<open>
  C4. With a resolved language (supplied or detected), \<open>suggestCorrections\<close> yields, in
  the order of the enumeration, exactly the candidate phrases that the validator
  accepts with the word list of that language: every yielded phrase passes the
  validator and every candidate that fails is skipped. A candidate phrase is the
  original token sequence with the replacements of an enumerated assignment
  substituted, and its text is the first word followed by each further word after one
  joiner. Each assignment replaces every position by a word of the list, so that the
  text splits back into the replacement words when the words of the list are tokens.
  No error is thrown.
\<close>

theorem suggestCorrections_validated:
  assumes "(case language of Some l \<Rightarrow> Some l
            | None \<Rightarrow> detectLanguage wl (splitMnemonic mnemonic) None) = Some lang"
  shows "let words = splitMnemonic mnemonic;
             enumerated = fst (combineSuggestions (spotSuggestionsFor wl words lang) 0 Infinity)
         in suggestCorrections bip39Validate wl mnemonic language
              = (filter (\<lambda>phrase. bip39Validate phrase (getWordList wl (Some lang)))
                   (map (\<lambda>a. phraseText (substituted words a) lang) enumerated),
                 None)
            \<and> (\<forall>phrase \<in> set (fst (suggestCorrections bip39Validate wl mnemonic language)).
                  bip39Validate phrase (getWordList wl (Some lang)))
            \<and> (\<forall>a \<in> set enumerated.
                  map fst a = [0..<length words]
                  \<and> substituted words a = map snd a
                  \<and> set (map snd a) \<subseteq> set (getWordList wl (Some lang))
                  \<and> ((\<forall>w \<in> set (getWordList wl (Some lang)). isToken w)
                       \<longrightarrow> splitMnemonic (phraseText (substituted words a) lang) = map snd a))"
proof -
  define words where "words = splitMnemonic mnemonic"
  define enumerated
    where "enumerated = fst (combineSuggestions (spotSuggestionsFor wl words lang) 0 Infinity)"
  have ne: "words \<noteq> []"
    by (simp add: words_def splitMnemonic_nonempty)
  have run: "suggestCorrections bip39Validate wl mnemonic language
           = (filter (\<lambda>phrase. bip39Validate phrase (getWordList wl (Some lang)))
                (map (\<lambda>a. phraseText (substituted words a) lang) enumerated),
              None)"
    using assms
    by (simp add: suggestCorrections_def Let_def validateMnemonic_def words_def enumerated_def
        suggestUnvalidatedCorrections_run [OF splitMnemonic_nonempty] joinMnemonic_phraseText)
  have each: "map fst a = [0..<length words] \<and> substituted words a = map snd a
              \<and> set (map snd a) \<subseteq> set (getWordList wl (Some lang))
              \<and> ((\<forall>w \<in> set (getWordList wl (Some lang)). isToken w)
                   \<longrightarrow> splitMnemonic (phraseText (substituted words a) lang) = map snd a)"
    if "a \<in> set enumerated" for a
  proof -
    have a: "map fst a = [0..<length words]" "substituted words a = map snd a"
      "set (map snd a) \<subseteq> set (getWordList wl (Some lang))"
      using enumerated_assignment [OF ne, of a wl lang] that by (simp_all add: enumerated_def)
    have "length (map snd a) = length words"
      using a(1) by (metis length_map length_upt minus_nat.diff_0)
    then have "map snd a \<noteq> []" using ne by auto
    then have "splitMnemonic (phraseText (map snd a) lang) = map snd a"
      if "\<forall>w \<in> set (getWordList wl (Some lang)). isToken w"
      using that a(3) by (intro splitMnemonic_phraseText) auto
    then show ?thesis using a by simp
  qed
  have valid: "\<forall>phrase \<in> set (fst (suggestCorrections bip39Validate wl mnemonic language)).
                  bip39Validate phrase (getWordList wl (Some lang))"
    by (simp add: run)
  show ?thesis
    unfolding Let_def words_def [symmetric] enumerated_def [symmetric]
    using run valid each by blast
qed

theorem suggestCorrections_validated_witness:
  "suggestCorrections exampleValidate exampleWordlists (str ''chat  son'') (Some french)
     = ([str ''chat sun'', str ''d'' @ [233] @ str ''put'' @ [233] @ str '' sun''], None)
   \<and> \<not> exampleValidate (str ''d'' @ [233] @ str ''put'' @ [233] @ str '' cote'')
         (getWordList exampleWordlists (Some french))"
proof -
  have lang: "(case Some french of Some l \<Rightarrow> Some l
               | None \<Rightarrow> detectLanguage exampleWordlists (splitMnemonic (str ''chat  son'')) None)
              = Some french"
    by simp
  have words: "splitMnemonic (str ''chat  son'') = [str ''chat'', str ''son'']"
    by (simp add: splitMnemonic_def split_whitespace_def trim_def str_def isWhiteSpace_def)
  have ranking:
    "wordSuggestions exampleWordlists (str ''chat'') french
      = [\<lparr>distance = 0, word = str ''chat''\<rparr>, \<lparr>distance = 3, word = str ''cote''\<rparr>,
         \<lparr>distance = 3, word = str ''cot'' @ [233]\<rparr>, \<lparr>distance = 4, word = str ''sun''\<rparr>,
         \<lparr>distance = 5, word = str ''d'' @ [233] @ str ''put'' @ [233]\<rparr>]"
    "wordSuggestions exampleWordlists (str ''son'') french
      = [\<lparr>distance = 1, word = str ''sun''\<rparr>, \<lparr>distance = 3, word = str ''cote''\<rparr>,
         \<lparr>distance = 3, word = str ''cot'' @ [233]\<rparr>, \<lparr>distance = 4, word = str ''chat''\<rparr>,
         \<lparr>distance = 6, word = str ''d'' @ [233] @ str ''put'' @ [233]\<rparr>]"
    by (simp_all add: wordSuggestions_def getWordList_def exampleWordlists_def str_def)
  have enum: "fst (combineSuggestions
                     (spotSuggestionsFor exampleWordlists [str ''chat'', str ''son''] french)
                     0 Infinity)
      = [[(0, str ''chat''), (1, str ''sun'')],
         [(0, str ''d'' @ [233] @ str ''put'' @ [233]), (1, str ''sun'')],
         [(0, str ''d'' @ [233] @ str ''put'' @ [233]), (1, str ''cote'')],
         [(0, str ''d'' @ [233] @ str ''put'' @ [233]), (1, str ''cot'' @ [233])],
         [(0, str ''d'' @ [233] @ str ''put'' @ [233]), (1, str ''chat'')],
         [(0, str ''d'' @ [233] @ str ''put'' @ [233]),
          (1, str ''d'' @ [233] @ str ''put'' @ [233])]]"
    by (simp add: spotSuggestionsFor_def ranking suggestionsInRange_def)
  show ?thesis
    using suggestCorrections_validated [OF lang, of exampleValidate]
    unfolding Let_def words enum
    by (simp add: substituted_def phraseText_def joiner_def separated_def exampleValidate_def
        splitMnemonic_def split_whitespace_def trim_def isWhiteSpace_def getWordList_def
        exampleWordlists_def str_def)
qed

end
